theory Spec2Isabelle
  imports Complex_Main "HOL-Library.AList" "HOL-Library.Multiset"
begin

section \<open>Strings\<close>

text \<open>
  A JavaScript string is modelled as an Isabelle \<open>string\<close>: a list of code units, here
  restricted to the range U+0000..U+00FF. \<open>length\<close> is the \<open>.length\<close> of the source.
  Numbers that the source keeps as IEEE doubles are modelled as \<open>nat\<close> or \<open>int\<close> where the
  code keeps them integral (counts, lengths, clock readings in milliseconds, token budgets).
  A stored number that need not be integral (a time stamp, a parameter, an average) is the
  real number it stands for, and what the code computes from such numbers (scores, decay
  factors, similarities) is computed in an arithmetic that is a parameter of the model
  (section Numbers).
\<close>

definition code_unit :: "char \<Rightarrow> nat" where
  "code_unit c = of_char c"

definition toLowerCase_char :: "char \<Rightarrow> char" where
  "toLowerCase_char c =
     (let n = code_unit c in
      if (65 \<le> n \<and> n \<le> 90) \<or> (192 \<le> n \<and> n \<le> 222 \<and> n \<noteq> 215)
      then char_of (n + 32) else c)"

definition toLowerCase :: "string \<Rightarrow> string" where
  "toLowerCase s = map toLowerCase_char s"

text \<open>\<open>s.split(/[class]+/)\<close>: the pieces between maximal runs of separator characters,
  with an empty first or last piece when the string starts or ends with a separator.\<close>

fun split_runs_aux :: "(char \<Rightarrow> bool) \<Rightarrow> string \<Rightarrow> bool \<Rightarrow> string \<Rightarrow> string list" where
  "split_runs_aux sep cur in_sep [] = [rev cur]"
| "split_runs_aux sep cur in_sep (c # cs) =
     (if sep c
      then (if in_sep then split_runs_aux sep cur True cs
            else rev cur # split_runs_aux sep [] True cs)
      else split_runs_aux sep (c # cur) False cs)"

definition split_runs :: "(char \<Rightarrow> bool) \<Rightarrow> string \<Rightarrow> string list" where
  "split_runs sep s = split_runs_aux sep [] False s"

section \<open>BM25Index\<close>

record IndexedDocument =
  doc_id :: string
  doc_path :: string
  doc_content :: string
  doc_timestamp :: real
  doc_terms :: "(string \<times> nat) list"
  doc_length :: nat

record BM25Config =
  cfg_k1 :: real
  cfg_b :: real

definition DEFAULT_BM25_CONFIG :: BM25Config where
  "DEFAULT_BM25_CONFIG = \<lparr>cfg_k1 = 12 / 10, cfg_b = 75 / 100\<rparr>"

text \<open>The two \<open>Map\<close>s of the class are association lists in insertion order, as a
  JavaScript \<open>Map\<close> iterates: \<open>set\<close> on a present key keeps its place, on a new key appends
  (\<open>AList.update\<close>); \<open>delete\<close> removes the entry (\<open>AList.delete\<close>).\<close>

record BM25Index =
  documents :: "(string \<times> IndexedDocument) list"
  documentFrequency :: "(string \<times> nat) list"
  avgDocLength :: real
  config :: BM25Config

definition new_BM25Index :: "BM25Config \<Rightarrow> BM25Index" where
  "new_BM25Index cfg = \<lparr>documents = [], documentFrequency = [], avgDocLength = 0, config = cfg\<rparr>"

text \<open>\<open>m.get(k) ?? 0\<close>\<close>

definition get_or_0 :: "(string \<times> nat) list \<Rightarrow> string \<Rightarrow> nat" where
  "get_or_0 m k = (case map_of m k of None \<Rightarrow> 0 | Some n \<Rightarrow> n)"

definition is_term_char :: "char \<Rightarrow> bool" where
  "is_term_char c = (let n = code_unit c in (97 \<le> n \<and> n \<le> 122) \<or> (48 \<le> n \<and> n \<le> 57))"

definition tokenize :: "string \<Rightarrow> string list" where
  "tokenize text = filter (\<lambda>term. length term > 1)
     (split_runs (\<lambda>c. \<not> is_term_char c) (toLowerCase text))"

definition count_terms :: "string list \<Rightarrow> (string \<times> nat) list" where
  "count_terms terms = foldl (\<lambda>m term. AList.update term (get_or_0 m term + 1) m) [] terms"

definition df_remove :: "(string \<times> nat) list \<Rightarrow> string \<Rightarrow> (string \<times> nat) list" where
  "df_remove dfm term =
     (let df = get_or_0 dfm term
      in if df > 1 then AList.update term (df - 1) dfm else AList.delete term dfm)"

definition df_add :: "(string \<times> nat) list \<Rightarrow> string \<Rightarrow> (string \<times> nat) list" where
  "df_add dfm term = AList.update term (get_or_0 dfm term + 1) dfm"

definition updateAvgDocLength :: "BM25Index \<Rightarrow> BM25Index" where
  "updateAvgDocLength idx =
     (if length (documents idx) = 0 then idx\<lparr>avgDocLength := 0\<rparr>
      else idx\<lparr>avgDocLength :=
             real (foldl (\<lambda>totalLength d. totalLength + doc_length d) 0 (map snd (documents idx)))
               / real (length (documents idx))\<rparr>)"

definition addDocument :: "BM25Index \<Rightarrow> string \<Rightarrow> string \<Rightarrow> string \<Rightarrow> real \<Rightarrow> BM25Index" where
  "addDocument idx i path content timestamp =
     (let terms = tokenize content;
          termFrequency = count_terms terms;
          df1 = (case map_of (documents idx) i of
                   Some existingDoc \<Rightarrow>
                     foldl df_remove (documentFrequency idx) (map fst (doc_terms existingDoc))
                 | None \<Rightarrow> documentFrequency idx);
          df2 = foldl df_add df1 (map fst termFrequency);
          docs = AList.update i
                   \<lparr>doc_id = i, doc_path = path, doc_content = content,
                    doc_timestamp = timestamp, doc_terms = termFrequency,
                    doc_length = length terms\<rparr> (documents idx)
      in updateAvgDocLength (idx\<lparr>documents := docs, documentFrequency := df2\<rparr>))"

definition removeDocument :: "BM25Index \<Rightarrow> string \<Rightarrow> bool \<times> BM25Index" where
  "removeDocument idx i =
     (case map_of (documents idx) i of
        None \<Rightarrow> (False, idx)
      | Some doc \<Rightarrow>
          (True, updateAvgDocLength
             (idx\<lparr>documentFrequency :=
                     foldl df_remove (documentFrequency idx) (map fst (doc_terms doc)),
                   documents := AList.delete i (documents idx)\<rparr>)))"

definition clear :: "BM25Index \<Rightarrow> BM25Index" where
  "clear idx = idx\<lparr>documents := [], documentFrequency := [], avgDocLength := 0\<rparr>"

text \<open>A sequence of mutations applied to a fresh index.\<close>

datatype index_op =
  AddDocument string string string real
| RemoveDocument string
| Clear

fun apply_op :: "BM25Index \<Rightarrow> index_op \<Rightarrow> BM25Index" where
  "apply_op idx (AddDocument i path content timestamp) = addDocument idx i path content timestamp"
| "apply_op idx (RemoveDocument i) = snd (removeDocument idx i)"
| "apply_op idx Clear = clear idx"

definition index_after :: "BM25Config \<Rightarrow> index_op list \<Rightarrow> BM25Index" where
  "index_after cfg ops = foldl apply_op (new_BM25Index cfg) ops"

text \<open>The number of stored documents whose term-frequency map has the term.\<close>

definition has_term :: "IndexedDocument \<Rightarrow> string \<Rightarrow> bool" where
  "has_term d term = (term \<in> set (map fst (doc_terms d)))"

definition docs_containing :: "BM25Index \<Rightarrow> string \<Rightarrow> nat" where
  "docs_containing idx term = length (filter (\<lambda>d. has_term d term) (map snd (documents idx)))"

text \<open>The invariant carried through every mutation: document ids and the terms of each
  document are stored once, and each counter is the number of documents with the term.\<close>

definition containing :: "(string \<times> IndexedDocument) list \<Rightarrow> string \<Rightarrow> nat" where
  "containing docs term = length (filter (\<lambda>d. has_term d term) (map snd docs))"

definition index_inv :: "BM25Index \<Rightarrow> bool" where
  "index_inv idx = (distinct (map fst (documents idx))
     \<and> list_all (\<lambda>d. distinct (map fst (doc_terms d))) (map snd (documents idx))
     \<and> (\<forall>t. get_or_0 (documentFrequency idx) t = containing (documents idx) t))"

section \<open>Numbers\<close>

text \<open>
  Scores, decay factors and similarities are IEEE doubles in the source, rounded after
  every operation, and \<open>Math.log\<close> and \<open>Math.pow\<close> are what the platform computes.
  The model takes this arithmetic as a parameter \<open>A\<close>: a type \<open>'f\<close> of numbers with the
  operations the source applies, each applied where and in the order the source applies
  it. \<open>fl A x\<close> is the number that stands for the real \<open>x\<close>: a literal of the source, a
  count, a stored value; with doubles, the double nearest to \<open>x\<close>. \<open>f_less A x y\<close> is
  \<open>x < y\<close> (and \<open>y > x\<close>), and \<open>exceeds_neg_infinity A x\<close> is \<open>x > -Infinity\<close>.
\<close>

record 'f arithmetic =
  fl :: "real \<Rightarrow> 'f"
  f_add :: "'f \<Rightarrow> 'f \<Rightarrow> 'f"
  f_sub :: "'f \<Rightarrow> 'f \<Rightarrow> 'f"
  f_mul :: "'f \<Rightarrow> 'f \<Rightarrow> 'f"
  f_div :: "'f \<Rightarrow> 'f \<Rightarrow> 'f"
  Math_log :: "'f \<Rightarrow> 'f"
  Math_pow :: "'f \<Rightarrow> 'f \<Rightarrow> 'f"
  Math_max :: "'f \<Rightarrow> 'f \<Rightarrow> 'f"
  f_less :: "'f \<Rightarrow> 'f \<Rightarrow> bool"
  exceeds_neg_infinity :: "'f \<Rightarrow> bool"

text \<open>The arithmetic of the real numbers, without rounding: the one instance in which
  the examples below are evaluated.\<close>

definition exact :: "real arithmetic" where
  "exact = \<lparr>fl = (\<lambda>x. x), f_add = (\<lambda>x y. x + y), f_sub = (\<lambda>x y. x - y),
            f_mul = (\<lambda>x y. x * y), f_div = (\<lambda>x y. x / y), Math_log = ln,
            Math_pow = (\<lambda>x y. x powr y), Math_max = max, f_less = (\<lambda>x y. x < y),
            exceeds_neg_infinity = (\<lambda>x. True)\<rparr>"

subsection \<open>Ranking\<close>

text \<open>The stored \<open>avgDocLength\<close> is the quotient of two counts; the record keeps the
  quotient itself and \<open>fl\<close> gives the number the code computes with. It is falsy
  (\<open>avgDocLength || 1\<close>) exactly when the quotient is 0.\<close>

definition idf :: "'f arithmetic \<Rightarrow> BM25Index \<Rightarrow> string \<Rightarrow> 'f" where
  "idf A idx term =
     (let N = length (documents idx);
          df = get_or_0 (documentFrequency idx) term
      in if df = 0 \<or> N = 0 then fl A 0
         else Math_log A
                (f_add A
                   (f_div A
                      (f_add A (f_sub A (fl A (real N)) (fl A (real df))) (fl A (5 / 10)))
                      (f_add A (fl A (real df)) (fl A (5 / 10))))
                   (fl A 1)))"

definition lengthNorm :: "'f arithmetic \<Rightarrow> BM25Index \<Rightarrow> IndexedDocument \<Rightarrow> 'f" where
  "lengthNorm A idx doc =
     f_add A (f_sub A (fl A 1) (fl A (cfg_b (config idx))))
       (f_mul A (fl A (cfg_b (config idx)))
          (f_div A (fl A (real (doc_length doc)))
             (if avgDocLength idx = 0 then fl A 1 else fl A (avgDocLength idx))))"

definition tfNorm :: "'f arithmetic \<Rightarrow> BM25Index \<Rightarrow> IndexedDocument \<Rightarrow> nat \<Rightarrow> 'f" where
  "tfNorm A idx doc tf =
     f_div A (f_mul A (fl A (real tf)) (f_add A (fl A (cfg_k1 (config idx))) (fl A 1)))
       (f_add A (fl A (real tf)) (f_mul A (fl A (cfg_k1 (config idx))) (lengthNorm A idx doc)))"

definition score :: "'f arithmetic \<Rightarrow> BM25Index \<Rightarrow> IndexedDocument \<Rightarrow> string list \<Rightarrow> 'f" where
  "score A idx doc queryTerms =
     foldl (\<lambda>acc term.
              let tf = get_or_0 (doc_terms doc) term
              in if tf = 0 then acc
                 else f_add A acc (f_mul A (idf A idx term) (tfNorm A idx doc tf)))
           (fl A 0) queryTerms"

text \<open>\<open>xs.slice(0, n)\<close> for an integral \<open>n\<close>: a negative \<open>n\<close> counts from the end.\<close>

definition slice0 :: "'a list \<Rightarrow> int \<Rightarrow> 'a list" where
  "slice0 xs n = (if n < 0 then take (nat (int (length xs) + n)) xs else take (nat n) xs)"

text \<open>
  \<open>results.sort((a, b) => b.score - a.score)\<close>. The comparator puts \<open>a\<close> before \<open>b\<close> when
  \<open>b.score - a.score < 0\<close>: \<open>comes_first A x y\<close> for the scores \<open>x\<close> of \<open>a\<close> and \<open>y\<close> of
  \<open>b\<close>. The sort of the language is stable; when the comparator orders the elements
  consistently, its result is the one arrangement that the stable insertion sort below
  gives: each element, from the last to the first, goes behind the elements that come
  first of it and in front of all others.
\<close>

definition comes_first :: "'f arithmetic \<Rightarrow> 'f \<Rightarrow> 'f \<Rightarrow> bool" where
  "comes_first A x y = f_less A (f_sub A y x) (fl A 0)"

fun insert_by_score :: "'f arithmetic \<Rightarrow> ('a \<Rightarrow> 'f) \<Rightarrow> 'a \<Rightarrow> 'a list \<Rightarrow> 'a list" where
  "insert_by_score A f x [] = [x]"
| "insert_by_score A f x (y # ys) =
     (if comes_first A (f y) (f x) then y # insert_by_score A f x ys else x # y # ys)"

definition sort_by_score_desc :: "'f arithmetic \<Rightarrow> ('a \<Rightarrow> 'f) \<Rightarrow> 'a list \<Rightarrow> 'a list" where
  "sort_by_score_desc A f xs = foldr (insert_by_score A f) xs []"

definition scored_documents ::
  "'f arithmetic \<Rightarrow> BM25Index \<Rightarrow> string list \<Rightarrow> (IndexedDocument \<times> 'f) list" where
  "scored_documents A idx queryTerms =
     filter (\<lambda>r. f_less A (fl A 0) (snd r))
       (map (\<lambda>doc. (doc, score A idx doc queryTerms)) (map snd (documents idx)))"

definition search ::
  "'f arithmetic \<Rightarrow> BM25Index \<Rightarrow> string \<Rightarrow> int \<Rightarrow> (IndexedDocument \<times> 'f) list" where
  "search A idx query limit =
     (let queryTerms = tokenize query
      in if length queryTerms = 0 then []
         else slice0 (sort_by_score_desc A snd (scored_documents A idx queryTerms)) limit)"

text \<open>What \<open>addDocument\<close> stores for a document, and the average it keeps.\<close>

definition wf_doc :: "IndexedDocument \<Rightarrow> bool" where
  "wf_doc d = (doc_terms d = count_terms (tokenize (doc_content d))
               \<and> doc_length d = length (tokenize (doc_content d)))"

definition mean_length :: "IndexedDocument list \<Rightarrow> real" where
  "mean_length docs =
     (if docs = [] then 0 else real (sum_list (map doc_length docs)) / real (length docs))"

definition index_wf :: "BM25Index \<Rightarrow> bool" where
  "index_wf idx = (list_all wf_doc (map snd (documents idx))
                   \<and> avgDocLength idx = mean_length (map snd (documents idx)))"

subsection \<open>The ranking as the specification words it\<close>

text \<open>
  The BM25 formulas of the specification, stated over the texts of the stored documents
  alone: \<open>N\<close> is their number, \<open>df(t)\<close> the number of them with the term among their
  tokens, \<open>tf(t, d)\<close> the number of occurrences of the term among the tokens of \<open>d\<close>,
  \<open>docLen\<close> the number of tokens of \<open>d\<close> and \<open>avgDocLen\<close> its average. The formulas are
  evaluated in the arithmetic \<open>A\<close>, from the left, and the sum runs over the query terms
  that occur in the document.
\<close>

definition term_frequency :: "string \<Rightarrow> string \<Rightarrow> nat" where
  "term_frequency term content = count_list (tokenize content) term"

definition document_frequency :: "string \<Rightarrow> string list \<Rightarrow> nat" where
  "document_frequency term contents = length (filter (\<lambda>c. term \<in> set (tokenize c)) contents)"

definition spec_idf :: "'f arithmetic \<Rightarrow> nat \<Rightarrow> nat \<Rightarrow> 'f" where
  "spec_idf A N df =
     Math_log A
       (f_add A
          (f_div A (f_add A (f_sub A (fl A (real N)) (fl A (real df))) (fl A (5 / 10)))
                   (f_add A (fl A (real df)) (fl A (5 / 10))))
          (fl A 1))"

definition spec_tfNorm :: "'f arithmetic \<Rightarrow> 'f \<Rightarrow> 'f \<Rightarrow> 'f \<Rightarrow> 'f \<Rightarrow> 'f \<Rightarrow> 'f" where
  "spec_tfNorm A k1 b tf docLen avgDocLen =
     f_div A (f_mul A tf (f_add A k1 (fl A 1)))
       (f_add A tf
          (f_mul A k1 (f_add A (f_sub A (fl A 1) b) (f_mul A b (f_div A docLen avgDocLen)))))"

definition spec_score ::
  "'f arithmetic \<Rightarrow> real \<Rightarrow> real \<Rightarrow> string list \<Rightarrow> string \<Rightarrow> string list \<Rightarrow> 'f" where
  "spec_score A k1 b contents content queryTerms =
     (let N = length contents;
          avgDocLen = fl A (real (sum_list (map (\<lambda>c. length (tokenize c)) contents)) / real N)
      in foldl (\<lambda>sum t.
                  if term_frequency t content = 0 then sum
                  else f_add A sum
                         (f_mul A (spec_idf A N (document_frequency t contents))
                            (spec_tfNorm A (fl A k1) (fl A b)
                               (fl A (real (term_frequency t content)))
                               (fl A (real (length (tokenize content)))) avgDocLen)))
               (fl A 0) queryTerms)"

definition contains_query_term :: "string list \<Rightarrow> string \<Rightarrow> bool" where
  "contains_query_term queryTerms content = list_ex (\<lambda>t. t \<in> set (tokenize content)) queryTerms"



definition consistent_comparator :: "'f arithmetic \<Rightarrow> bool" where
  "consistent_comparator A =
     (\<forall>x y z. f_less A (fl A 0) x \<and> f_less A (fl A 0) y \<and> f_less A (fl A 0) z \<longrightarrow>
        (comes_first A x y \<longrightarrow> \<not> comes_first A y x)
        \<and> (\<not> comes_first A x y \<and> \<not> comes_first A y z \<longrightarrow> \<not> comes_first A x z))"

section \<open>MemorySystem\<close>

record MemoryConfig =
  workspacePath :: string
  maxContextTokens :: int
  temporalDecayHalfLife :: real

definition DEFAULT_MEMORY_CONFIG :: MemoryConfig where
  "DEFAULT_MEMORY_CONFIG =
     \<lparr>workspacePath = ''~/.openclaw/workspace'', maxContextTokens = 100000,
      temporalDecayHalfLife = 7\<rparr>"

record 'f SearchResult =
  sr_path :: string
  sr_content :: string
  sr_score :: 'f
  sr_timestamp :: real

text \<open>The state of a \<open>MemorySystem\<close> that the operations below read and write: its
  configuration, its index, and the note files of the memory directory that
  \<open>flushFactsToDisk\<close> writes (path relative to the workspace root, content). The logger
  and the bootstrap cache take no part in any result.\<close>

record MemorySystem =
  ms_config :: MemoryConfig
  bm25Index :: BM25Index
  note_files :: "(string \<times> string) list"

definition new_MemorySystem :: "MemoryConfig \<Rightarrow> MemorySystem" where
  "new_MemorySystem cfg =
     \<lparr>ms_config = cfg, bm25Index = new_BM25Index DEFAULT_BM25_CONFIG, note_files = []\<rparr>"

text \<open>\<open>this.config.temporalDecayHalfLife * 24 * 60 * 60 * 1000\<close>, from the left.\<close>

definition halfLifeMs :: "'f arithmetic \<Rightarrow> MemorySystem \<Rightarrow> 'f" where
  "halfLifeMs A ms =
     f_mul A
       (f_mul A
          (f_mul A (f_mul A (fl A (temporalDecayHalfLife (ms_config ms))) (fl A 24)) (fl A 60))
          (fl A 60))
       (fl A 1000)"

text \<open>One element of \<open>bm25Results.map(...)\<close> in \<open>search\<close>; \<open>now\<close> is the one reading of
  \<open>Date.now()\<close> taken before the map.\<close>

definition decay ::
  "'f arithmetic \<Rightarrow> MemorySystem \<Rightarrow> real \<Rightarrow> IndexedDocument \<times> 'f \<Rightarrow> 'f SearchResult" where
  "decay A ms now r =
     (let ageMs = f_sub A (fl A now) (fl A (doc_timestamp (fst r)));
          decayFactor = Math_pow A (fl A (5 / 10)) (f_div A ageMs (halfLifeMs A ms))
      in \<lparr>sr_path = doc_path (fst r), sr_content = doc_content (fst r),
          sr_score = f_mul A (snd r) decayFactor, sr_timestamp = doc_timestamp (fst r)\<rparr>)"

definition applyTemporalDecay :: "'f arithmetic \<Rightarrow> MemorySystem \<Rightarrow> real \<Rightarrow> 'f \<Rightarrow> real \<Rightarrow> 'f" where
  "applyTemporalDecay A ms now s timestamp =
     (let ageMs = f_sub A (fl A now) (fl A timestamp);
          decayFactor = Math_pow A (fl A (5 / 10)) (f_div A ageMs (halfLifeMs A ms))
      in f_mul A s decayFactor)"

text \<open>White space of the language within U+0000..U+00FF: what \<open>trim\<close> strips and
  \<open>\s\<close> matches.\<close>

definition is_space :: "char \<Rightarrow> bool" where
  "is_space c = (let n = code_unit c in (9 \<le> n \<and> n \<le> 13) \<or> n = 32 \<or> n = 160)"

text \<open>\<open>new Set(text.toLowerCase().split(/\s+/))\<close>, as the list of its distinct members.\<close>

definition token_set :: "string \<Rightarrow> string list" where
  "token_set text = remdups (split_runs is_space (toLowerCase text))"

definition jaccardSimilarity :: "'f arithmetic \<Rightarrow> string \<Rightarrow> string \<Rightarrow> 'f" where
  "jaccardSimilarity A text1 text2 =
     (let tokens1 = token_set text1;
          tokens2 = token_set text2;
          intersection = filter (\<lambda>x. x \<in> set tokens2) tokens1;
          union = remdups (tokens1 @ tokens2)
      in if length union = 0 then fl A 0
         else f_div A (fl A (real (length intersection))) (fl A (real (length union))))"

definition maxSimilarity :: "'f arithmetic \<Rightarrow> 'f SearchResult list \<Rightarrow> 'f SearchResult \<Rightarrow> 'f" where
  "maxSimilarity A selected candidate =
     foldl (\<lambda>m sel. Math_max A m (jaccardSimilarity A (sr_content candidate) (sr_content sel)))
       (fl A 0) selected"

definition mmrScore ::
  "'f arithmetic \<Rightarrow> 'f \<Rightarrow> 'f SearchResult list \<Rightarrow> 'f SearchResult \<Rightarrow> 'f" where
  "mmrScore A lambda selected candidate =
     f_sub A (f_mul A lambda (sr_score candidate))
       (f_mul A (f_sub A (fl A 1) lambda) (maxSimilarity A selected candidate))"

text \<open>The inner \<open>for\<close> loop of \<open>mmrRerank\<close> from index \<open>i\<close> on; \<open>bestMmrScore\<close> is \<open>None\<close>
  while it is \<open>-Infinity\<close>.\<close>

fun select_best ::
  "'f arithmetic \<Rightarrow> 'f \<Rightarrow> 'f SearchResult list \<Rightarrow> 'f SearchResult list \<Rightarrow> nat \<Rightarrow> nat
     \<Rightarrow> 'f option \<Rightarrow> nat" where
  "select_best A lambda selected [] i bestIdx bestMmrScore = bestIdx"
| "select_best A lambda selected (candidate # rest) i bestIdx bestMmrScore =
     (let m = mmrScore A lambda selected candidate
      in if (case bestMmrScore of
               None \<Rightarrow> exceeds_neg_infinity A m
             | Some best \<Rightarrow> f_less A best m)
         then select_best A lambda selected rest (Suc i) i (Some m)
         else select_best A lambda selected rest (Suc i) bestIdx bestMmrScore)"

lemma select_best_bound:
  "bestIdx < n \<Longrightarrow> i + length remaining \<le> n \<Longrightarrow>
   select_best A lambda selected remaining i bestIdx best < n"
  by (induction remaining arbitrary: i bestIdx best) (auto simp: Let_def)

text \<open>The \<open>while\<close> loop of \<open>mmrRerank\<close>; \<open>splice(bestIdx, 1)\<close> takes the element out.\<close>

function mmr_loop ::
  "'f arithmetic \<Rightarrow> 'f \<Rightarrow> int \<Rightarrow> 'f SearchResult list \<Rightarrow> 'f SearchResult list
     \<Rightarrow> 'f SearchResult list" where
  "mmr_loop A lambda limit selected remaining =
     (if int (length selected) < limit \<and> length remaining > 0
      then (let bestIdx = select_best A lambda selected remaining 0 0 None
            in mmr_loop A lambda limit (selected @ [remaining ! bestIdx])
                 (take bestIdx remaining @ drop (Suc bestIdx) remaining))
      else selected)"
  by pat_completeness auto
termination
proof (relation "measure (\<lambda>(A, lambda, limit, selected, remaining). length remaining)")
  show "wf (measure (\<lambda>(A, lambda, limit, selected, remaining). length remaining))"
    by simp
next
  fix A :: "'f arithmetic" and lambda :: 'f and limit :: int
    and selected remaining :: "'f SearchResult list" and bestIdx
  assume a: "int (length selected) < limit \<and> 0 < length remaining"
    and b: "bestIdx = select_best A lambda selected remaining 0 0 None"
  from a have "select_best A lambda selected remaining 0 0 None < length remaining"
    by (intro select_best_bound) simp_all
  with b have "bestIdx < length remaining"
    by simp
  then show "((A, lambda, limit, selected @ [remaining ! bestIdx],
               take bestIdx remaining @ drop (Suc bestIdx) remaining),
              (A, lambda, limit, selected, remaining))
             \<in> measure (\<lambda>(A, lambda, limit, selected, remaining). length remaining)"
    by simp
qed

declare mmr_loop.simps [simp del]

definition mmrRerank ::
  "'f arithmetic \<Rightarrow> 'f SearchResult list \<Rightarrow> int \<Rightarrow> 'f \<Rightarrow> 'f SearchResult list" where
  "mmrRerank A results limit lambda =
     (if length results \<le> 1 then slice0 results limit
      else (case results of
              [] \<Rightarrow> []
            | first # remaining \<Rightarrow> mmr_loop A lambda limit [first] remaining))"

definition MemorySystem_search ::
  "'f arithmetic \<Rightarrow> MemorySystem \<Rightarrow> real \<Rightarrow> string \<Rightarrow> int \<Rightarrow> 'f SearchResult list" where
  "MemorySystem_search A ms now query limit =
     (let bm25Results = search A (bm25Index ms) query (limit * 2)
      in if length bm25Results = 0 then []
         else (let decayedResults = map (decay A ms now) bm25Results;
                   sortedResults = sort_by_score_desc A sr_score decayedResults
               in mmrRerank A sortedResults limit (fl A (7 / 10))))"

subsection \<open>Compaction\<close>

datatype role = User | Assistant | Tool

record ToolCall =
  tc_id :: string
  tc_name :: string
  tc_arguments :: string

record ToolResult =
  tr_callId :: string
  tr_success :: bool
  tr_output :: string

record TranscriptEntry =
  entry_id :: string
  entry_role :: role
  entry_content :: string
  entry_timestamp :: int
  toolCall :: "ToolCall option"
  toolResult :: "ToolResult option"

definition estimateTokens :: "string \<Rightarrow> nat" where
  "estimateTokens text = (length text + 3) div 4"

definition total_tokens :: "TranscriptEntry list \<Rightarrow> nat" where
  "total_tokens history =
     foldl (\<lambda>totalTokens entry. totalTokens + estimateTokens (entry_content entry)) 0 history"

text \<open>
  \<open>Math.floor(limit * 0.7)\<close> on doubles, written out. The literal \<open>0.7\<close> is the double
  \<open>3152519739159347 / 2^52\<close>; the product of an integral \<open>limit\<close> with it is rounded to 53
  significant bits, to nearest and ties to even, and then floored. (So
  \<open>Math.floor(90 * 0.7)\<close> is 62, not 63.) Exact for \<open>|limit| \<le> 2^53\<close>.
\<close>

function bit_length :: "int \<Rightarrow> nat" where
  "bit_length n = (if n \<le> 0 then 0 else Suc (bit_length (n div 2)))"
  by pat_completeness auto
termination
  by (relation "measure nat") auto

definition round_to_53_bits :: "int \<Rightarrow> int" where
  "round_to_53_bits n =
     (if bit_length n \<le> 53 then n
      else (let s = bit_length n - 53;
                q = n div 2 ^ s;
                r = n mod 2 ^ s;
                half = 2 ^ (s - 1)
            in (if r > half \<or> (r = half \<and> odd q) then q + 1 else q) * 2 ^ s))"

definition floor_times_0_7 :: "int \<Rightarrow> int" where
  "floor_times_0_7 limit =
     (sgn limit * round_to_53_bits (\<bar>limit\<bar> * 3152519739159347)) div 2 ^ 52"

text \<open>The backward loop of \<open>compact\<close> over the history, newest entry first;
  \<open>unshift\<close> puts an entry in front.\<close>

fun keep_recent ::
  "int \<Rightarrow> TranscriptEntry list \<Rightarrow> nat \<Rightarrow> TranscriptEntry list \<Rightarrow> TranscriptEntry list" where
  "keep_recent recentLimit [] recentTokens recentMessages = recentMessages"
| "keep_recent recentLimit (entry # older) recentTokens recentMessages =
     (let entryTokens = estimateTokens (entry_content entry)
      in if int (recentTokens + entryTokens) \<le> recentLimit
         then keep_recent recentLimit older (recentTokens + entryTokens) (entry # recentMessages)
         else recentMessages)"

definition trim :: "string \<Rightarrow> string" where
  "trim s = rev (dropWhile is_space (rev (dropWhile is_space s)))"

definition is_word_char :: "char \<Rightarrow> bool" where
  "is_word_char c =
     (let n = code_unit c
      in (48 \<le> n \<and> n \<le> 57) \<or> (65 \<le> n \<and> n \<le> 90) \<or> n = 95 \<or> (97 \<le> n \<and> n \<le> 122))"

definition ascii_lower :: "char \<Rightarrow> char" where
  "ascii_lower c = (let n = code_unit c in if 65 \<le> n \<and> n \<le> 90 then char_of (n + 32) else c)"

text \<open>
  \<open>/\b(w1|w2|...)\b/i.test(s)\<close> for alternatives of lower-case letters and spaces: some
  alternative occurs in \<open>s\<close>, letter case ignored, with a word boundary on each side.
  \<open>matches_here ws prev s\<close> tries the position in front of \<open>s\<close>, where \<open>prev\<close> tells
  whether the character before it is a word character.
\<close>

definition matches_here :: "string list \<Rightarrow> bool \<Rightarrow> string \<Rightarrow> bool" where
  "matches_here ws prev s =
     list_ex (\<lambda>w. w \<noteq> [] \<and> map ascii_lower (take (length w) s) = w
                 \<and> prev \<noteq> is_word_char (hd w)
                 \<and> is_word_char (last w)
                    \<noteq> (case drop (length w) s of [] \<Rightarrow> False | c # cs \<Rightarrow> is_word_char c)) ws"

fun matches_from :: "string list \<Rightarrow> bool \<Rightarrow> string \<Rightarrow> bool" where
  "matches_from ws prev [] = False"
| "matches_from ws prev (c # cs) =
     (matches_here ws prev (c # cs) \<or> matches_from ws (is_word_char c) cs)"

definition word_test :: "string list \<Rightarrow> string \<Rightarrow> bool" where
  "word_test ws s = matches_from ws False s"

definition isDefinition :: "string \<Rightarrow> bool" where
  "isDefinition s = word_test [''is'', ''are'', ''was'', ''were'', ''means'', ''refers to''] s"

definition isPreference :: "string \<Rightarrow> bool" where
  "isPreference s = word_test [''prefer'', ''like'', ''want'', ''need'', ''should'', ''must''] s"

definition isStatement :: "string \<Rightarrow> bool" where
  "isStatement s = word_test [''always'', ''never'', ''usually'', ''typically'', ''important''] s"

definition fact_like :: "string \<Rightarrow> bool" where
  "fact_like trimmed = (isDefinition trimmed \<or> isPreference trimmed \<or> isStatement trimmed)"

definition is_sentence_end :: "char \<Rightarrow> bool" where
  "is_sentence_end c = (c = CHR ''.'' \<or> c = CHR ''!'' \<or> c = CHR ''?'')"

definition sentences :: "string \<Rightarrow> string list" where
  "sentences content = filter (\<lambda>s. length (trim s) > 10) (split_runs is_sentence_end content)"

text \<open>The inner and the outer loop of \<open>extractFacts\<close>; both stop at ten facts.\<close>

fun scan_sentences :: "string list \<Rightarrow> string list \<Rightarrow> string list" where
  "scan_sentences [] facts = facts"
| "scan_sentences (sentence # rest) facts =
     (let trimmed = trim sentence
      in if fact_like trimmed
         then (let fact = (if length trimmed > 100 then take 100 trimmed @ ''...'' else trimmed);
                   facts' = facts @ [fact]
               in if length facts' \<ge> 10 then facts' else scan_sentences rest facts')
         else scan_sentences rest facts)"

fun scan_entries :: "TranscriptEntry list \<Rightarrow> string list \<Rightarrow> string list" where
  "scan_entries [] facts = facts"
| "scan_entries (entry # rest) facts =
     (if entry_role entry = Tool then scan_entries rest facts
      else (let facts' = scan_sentences (sentences (entry_content entry)) facts
            in if length facts' \<ge> 10 then facts' else scan_entries rest facts'))"

definition extractFacts :: "TranscriptEntry list \<Rightarrow> string list" where
  "extractFacts entries = scan_entries entries []"

text \<open>\<open>xs.join(sep)\<close>\<close>

fun join :: "string \<Rightarrow> string list \<Rightarrow> string" where
  "join sep [] = []"
| "join sep [x] = x"
| "join sep (x # y # ys) = x @ sep @ join sep (y # ys)"

text \<open>The decimal digits of a number that is an integer, as string concatenation and
  \<open>JSON.stringify\<close> write it (below \<open>10^21\<close> in absolute value).\<close>

function digits_of :: "int \<Rightarrow> string" where
  "digits_of n =
     (if n < 10 then [char_of (48 + n)]
      else digits_of (n div 10) @ [char_of (48 + n mod 10)])"
  by pat_completeness auto
termination
  by (relation "measure nat") auto

definition string_of_int :: "int \<Rightarrow> string" where
  "string_of_int i = (if i < 0 then CHR ''-'' # digits_of (- i) else digits_of i)"

text \<open>
  What \<open>compact\<close> takes from outside: the readings of \<open>Date.now()\<close> for the summary entry
  and in \<open>flushFactsToDisk\<close>, the text \<open>new Date(timestamp).toISOString()\<close> gives for the
  latter, and whether \<open>writeFile\<close> succeeds.
\<close>

record compact_env =
  now_summary :: int
  now_flush :: int
  iso_flush :: string
  write_ok :: bool

definition flushFactsToDisk :: "MemorySystem \<Rightarrow> compact_env \<Rightarrow> string list \<Rightarrow> MemorySystem" where
  "flushFactsToDisk ms env facts =
     (if length facts = 0 then ms
      else (let timestamp = now_flush env;
                filename = ''facts-'' @ string_of_int timestamp @ ''.md'';
                filePath = ''workspace/memory/'' @ filename;
                content = join [CHR 0x0A]
                  ([''# Extracted Facts'', '''', ''Extracted at: '' @ iso_flush env, '''']
                   @ map (\<lambda>f. ''- '' @ f) facts)
            in if write_ok env
               then ms\<lparr>note_files := AList.update filePath content (note_files ms),
                       bm25Index := addDocument (bm25Index ms) filePath filePath content
                                      (real_of_int timestamp)\<rparr>
               else ms))"

record CompactResult =
  compactedHistory :: "TranscriptEntry list"
  flushedFacts :: "string list"

definition summary_entry :: "compact_env \<Rightarrow> TranscriptEntry list \<Rightarrow> string list \<Rightarrow> TranscriptEntry" where
  "summary_entry env olderMessages facts =
     \<lparr>entry_id = ''summary-'' @ string_of_int (now_summary env),
      entry_role = Assistant,
      entry_content = ''[Context Summary: '' @ join ''; '' facts @ '']'',
      entry_timestamp = (case olderMessages of [] \<Rightarrow> now_summary env | e # es \<Rightarrow> entry_timestamp e),
      toolCall = None, toolResult = None\<rparr>"

definition compact ::
  "MemorySystem \<Rightarrow> compact_env \<Rightarrow> TranscriptEntry list \<Rightarrow> int option
     \<Rightarrow> CompactResult \<times> MemorySystem" where
  "compact ms env history maxTokens =
     (let limit = (case maxTokens of None \<Rightarrow> maxContextTokens (ms_config ms) | Some n \<Rightarrow> n);
          totalTokens = total_tokens history
      in if int totalTokens \<le> limit
         then (\<lparr>compactedHistory = history, flushedFacts = []\<rparr>, ms)
         else (let recentLimit = floor_times_0_7 limit;
                   recentMessages = keep_recent recentLimit (rev history) 0 [];
                   olderMessages = take (length history - length recentMessages) history;
                   facts = extractFacts olderMessages;
                   summarised = (length olderMessages > 0 \<and> length facts > 0);
                   compacted = (if summarised then [summary_entry env olderMessages facts] else [])
                                 @ recentMessages;
                   flushed = (if summarised then facts else [])
               in (\<lparr>compactedHistory = compacted, flushedFacts = flushed\<rparr>,
                   if length flushed > 0 then flushFactsToDisk ms env flushed else ms)))"

section \<open>JSON text\<close>

text \<open>
  \<open>JSON.parse\<close> and \<open>JSON.stringify\<close> belong to the language, not to the repository; they
  are modelled from the JSON grammar (ECMA-404) as far as the transcript store uses them.
  A parsed value keeps the code units of a string as numbers, since a \<open>\uXXXX\<close> escape can
  name any of them; a number is its decimal value (doubles are not rounded, so a literal
  too small for a double is not read as zero); an object lists its members in the order of
  first appearance, a repeated key keeping its last value.
\<close>

datatype json =
  JNull
| JBool bool
| JNumber real
| JString "nat list"
| JArray "json list"
| JObject "(nat list \<times> json) list"

datatype token =
  TLBrace | TRBrace | TLBracket | TRBracket | TColon | TComma
| TString "nat list" | TNumber real | TTrue | TFalse | TNull

definition units :: "string \<Rightarrow> nat list" where
  "units s = map code_unit s"

definition is_json_space :: "char \<Rightarrow> bool" where
  "is_json_space c = (let n = code_unit c in n = 32 \<or> n = 9 \<or> n = 10 \<or> n = 13)"

definition is_digit :: "char \<Rightarrow> bool" where
  "is_digit c = (48 \<le> code_unit c \<and> code_unit c \<le> 57)"

definition hex_value :: "char \<Rightarrow> nat option" where
  "hex_value c =
     (let n = code_unit c
      in if 48 \<le> n \<and> n \<le> 57 then Some (n - 48)
         else if 97 \<le> n \<and> n \<le> 102 then Some (n - 87)
         else if 65 \<le> n \<and> n \<le> 70 then Some (n - 55)
         else None)"

definition escape_value :: "char \<Rightarrow> nat option" where
  "escape_value c =
     (if c = CHR 0x22 then Some 34
      else if c = CHR 0x5C then Some 92
      else if c = CHR ''/'' then Some 47
      else if c = CHR ''b'' then Some 8
      else if c = CHR ''f'' then Some 12
      else if c = CHR ''n'' then Some 10
      else if c = CHR ''r'' then Some 13
      else if c = CHR ''t'' then Some 9
      else None)"

text \<open>The characters of a string literal after its opening quote, up to the closing one.\<close>

fun lex_string :: "string \<Rightarrow> (nat list \<times> string) option" where
  "lex_string [] = None"
| "lex_string (c # cs) =
     (if c = CHR 0x22 then Some ([], cs)
      else if c = CHR 0x5C then
        (case cs of
           [] \<Rightarrow> None
         | e # cs1 \<Rightarrow>
             (if e = CHR ''u'' then
                (case cs1 of
                   h1 # h2 # h3 # h4 # cs2 \<Rightarrow>
                     (case (hex_value h1, hex_value h2, hex_value h3, hex_value h4) of
                        (Some a, Some b, Some c, Some d) \<Rightarrow>
                          (case lex_string cs2 of
                             None \<Rightarrow> None
                           | Some (s, rest) \<Rightarrow> Some ((((a * 16 + b) * 16 + c) * 16 + d) # s, rest))
                      | _ \<Rightarrow> None)
                 | _ \<Rightarrow> None)
              else (case escape_value e of
                      None \<Rightarrow> None
                    | Some v \<Rightarrow>
                        (case lex_string cs1 of
                           None \<Rightarrow> None
                         | Some (s, rest) \<Rightarrow> Some (v # s, rest)))))
      else if code_unit c < 32 then None
      else (case lex_string cs of
              None \<Rightarrow> None
            | Some (s, rest) \<Rightarrow> Some (code_unit c # s, rest)))"

definition digits_value :: "string \<Rightarrow> int" where
  "digits_value ds = foldl (\<lambda>a d. 10 * a + int (code_unit d - 48)) 0 ds"

text \<open>A number literal: \<open>-? (0 | [1-9][0-9]*) (. [0-9]+)? ([eE] [+-]? [0-9]+)?\<close>.\<close>

definition lex_int_part :: "string \<Rightarrow> (string \<times> string) option" where
  "lex_int_part s =
     (case s of
        [] \<Rightarrow> None
      | c # cs \<Rightarrow>
          if c = CHR ''0'' then Some ([c], cs)
          else if is_digit c then Some (takeWhile is_digit s, dropWhile is_digit s)
          else None)"

definition lex_fraction :: "string \<Rightarrow> (string \<times> string) option" where
  "lex_fraction s =
     (case s of
        [] \<Rightarrow> Some ([], s)
      | c # cs \<Rightarrow>
          if c = CHR ''.''
          then (if takeWhile is_digit cs = [] then None
                else Some (takeWhile is_digit cs, dropWhile is_digit cs))
          else Some ([], s))"

definition lex_exponent :: "string \<Rightarrow> (int \<times> string) option" where
  "lex_exponent s =
     (case s of
        [] \<Rightarrow> Some (0, s)
      | c # cs \<Rightarrow>
          if c = CHR ''e'' \<or> c = CHR ''E''
          then (let negative = (case cs of [] \<Rightarrow> False | g # _ \<Rightarrow> g = CHR ''-'');
                    ds = (case cs of
                            [] \<Rightarrow> []
                          | g # gs \<Rightarrow> if g = CHR ''-'' \<or> g = CHR ''+'' then gs else cs)
                in if takeWhile is_digit ds = [] then None
                   else Some ((if negative then - digits_value (takeWhile is_digit ds)
                               else digits_value (takeWhile is_digit ds)),
                              dropWhile is_digit ds))
          else Some (0, s))"

definition lex_number :: "string \<Rightarrow> (real \<times> string) option" where
  "lex_number s =
     (let negative = (case s of [] \<Rightarrow> False | c # _ \<Rightarrow> c = CHR ''-'');
          s1 = (if negative then tl s else s)
      in case lex_int_part s1 of
           None \<Rightarrow> None
         | Some (ds, s2) \<Rightarrow>
             (case lex_fraction s2 of
                None \<Rightarrow> None
              | Some (fs, s3) \<Rightarrow>
                  (case lex_exponent s3 of
                     None \<Rightarrow> None
                   | Some (e, s4) \<Rightarrow>
                       Some ((if negative then - 1 else 1)
                               * (real_of_int (digits_value ds)
                                  + real_of_int (digits_value fs) / 10 ^ length fs)
                               * (if e < 0 then 1 / 10 ^ nat (- e) else 10 ^ nat e),
                             s4))))"

lemma lex_string_shorter: "lex_string cs = Some (s, rest) \<Longrightarrow> length rest < length cs"
proof (induction cs arbitrary: s rest rule: lex_string.induct)
  case 1
  then show ?case by simp
next
  case (2 c cs)
  show ?case
  proof (cases "c = CHR 0x22")
    case True
    with "2.prems" show ?thesis by simp
  next
    case False
    note not_quote = this
    show ?thesis
    proof (cases "c = CHR 0x5C")
      case False
      with not_quote "2.prems" "2.IH"(3) show ?thesis
        by (fastforce split: if_splits option.splits)
    next
      case True
      with not_quote "2.prems" "2.IH"(1,2) show ?thesis
        by (fastforce split: if_splits option.splits list.splits)
    qed
  qed
qed

lemma lex_number_shorter: "lex_number cs = Some (x, rest) \<Longrightarrow> length rest < length cs"
proof -
  have drop_le: "length (dropWhile is_digit xs) \<le> length xs" for xs
    by (simp add: length_dropWhile_le)
  have int_part: "lex_int_part xs = Some (ds, ys) \<Longrightarrow> length ys < length xs" for xs ds ys
    by (cases xs) (auto simp: lex_int_part_def split: if_splits intro: le_imp_less_Suc [OF drop_le])
  have fraction: "lex_fraction xs = Some (fs, ys) \<Longrightarrow> length ys \<le> length xs" for xs fs ys
    by (cases xs) (auto simp: lex_fraction_def split: if_splits intro: le_SucI [OF drop_le])
  have exponent: "lex_exponent xs = Some (e, ys) \<Longrightarrow> length ys \<le> length xs" for xs e ys
    by (cases xs; cases "tl xs")
       (auto simp: lex_exponent_def Let_def split: if_splits
             intro: le_SucI [OF drop_le] le_SucI [OF le_SucI [OF drop_le]])
  assume "lex_number cs = Some (x, rest)"
  then obtain ds s2 fs s3 e where
    a: "lex_int_part (if (case cs of [] \<Rightarrow> False | c # _ \<Rightarrow> c = CHR ''-'') then tl cs else cs)
          = Some (ds, s2)"
    and b: "lex_fraction s2 = Some (fs, s3)" and c: "lex_exponent s3 = Some (e, rest)"
    by (auto simp: lex_number_def Let_def split: option.splits)
  from int_part [OF a] have "length s2 < length cs"
    by (cases cs) (auto split: if_splits)
  with fraction [OF b] exponent [OF c] show ?thesis
    by simp
qed

definition starts_with :: "string \<Rightarrow> string \<Rightarrow> bool" where
  "starts_with p s = (take (length p) s = p)"

function lex :: "string \<Rightarrow> token list option" where
  "lex [] = Some []"
| "lex (c # cs) =
     (if is_json_space c then lex cs
      else if c = CHR ''{'' then map_option (Cons TLBrace) (lex cs)
      else if c = CHR ''}'' then map_option (Cons TRBrace) (lex cs)
      else if c = CHR ''['' then map_option (Cons TLBracket) (lex cs)
      else if c = CHR '']'' then map_option (Cons TRBracket) (lex cs)
      else if c = CHR '':'' then map_option (Cons TColon) (lex cs)
      else if c = CHR '','' then map_option (Cons TComma) (lex cs)
      else if c = CHR 0x22 then
        (case lex_string cs of
           None \<Rightarrow> None
         | Some (s, rest) \<Rightarrow> map_option (Cons (TString s)) (lex rest))
      else if c = CHR ''-'' \<or> is_digit c then
        (case lex_number (c # cs) of
           None \<Rightarrow> None
         | Some (x, rest) \<Rightarrow> map_option (Cons (TNumber x)) (lex rest))
      else if starts_with ''true'' (c # cs) then map_option (Cons TTrue) (lex (drop 3 cs))
      else if starts_with ''false'' (c # cs) then map_option (Cons TFalse) (lex (drop 4 cs))
      else if starts_with ''null'' (c # cs) then map_option (Cons TNull) (lex (drop 3 cs))
      else None)"
  by pat_completeness auto
termination
proof (relation "measure length", goal_cases)
  case (9 c cs x2 x y)
  then have "lex_string cs = Some (x, y)"
    by simp
  from lex_string_shorter [OF this] show ?case
    by simp
next
  case (10 c cs x2 x y)
  then have "lex_number (c # cs) = Some (x, y)"
    by simp
  from lex_number_shorter [OF this] show ?case
    by simp
qed simp_all

text \<open>The members of an object literal become properties one after the other.\<close>

definition object_of :: "(nat list \<times> json) list \<Rightarrow> (nat list \<times> json) list" where
  "object_of members = foldl (\<lambda>obj m. AList.update (fst m) (snd m) obj) [] members"

text \<open>Recursive descent over the tokens. \<open>parse_elements\<close> reads \<open>value (, value)* ]\<close> and
  \<open>parse_members\<close> reads \<open>string : value (, string : value)* }\<close>. The test that a value
  used up a token never fails (\<open>parse_value_shorter\<close> below); it is there so that the
  recursion is seen to end.\<close>

function (sequential) parse_value :: "token list \<Rightarrow> (json \<times> token list) option"
  and parse_elements :: "token list \<Rightarrow> (json list \<times> token list) option"
  and parse_members :: "token list \<Rightarrow> ((nat list \<times> json) list \<times> token list) option"
where
  "parse_value (TNull # ts) = Some (JNull, ts)"
| "parse_value (TTrue # ts) = Some (JBool True, ts)"
| "parse_value (TFalse # ts) = Some (JBool False, ts)"
| "parse_value (TNumber x # ts) = Some (JNumber x, ts)"
| "parse_value (TString s # ts) = Some (JString s, ts)"
| "parse_value (TLBracket # TRBracket # ts) = Some (JArray [], ts)"
| "parse_value (TLBracket # ts) =
     (case parse_elements ts of
        None \<Rightarrow> None
      | Some (vs, rest) \<Rightarrow> Some (JArray vs, rest))"
| "parse_value (TLBrace # TRBrace # ts) = Some (JObject [], ts)"
| "parse_value (TLBrace # ts) =
     (case parse_members ts of
        None \<Rightarrow> None
      | Some (ms, rest) \<Rightarrow> Some (JObject (object_of ms), rest))"
| "parse_value _ = None"
| "parse_elements ts =
     (case parse_value ts of
        None \<Rightarrow> None
      | Some (v, rest) \<Rightarrow>
          if length rest < length ts
          then (case rest of
                  TComma # rest1 \<Rightarrow>
                    (case parse_elements rest1 of
                       None \<Rightarrow> None
                     | Some (vs, rest2) \<Rightarrow> Some (v # vs, rest2))
                | TRBracket # rest1 \<Rightarrow> Some ([v], rest1)
                | _ \<Rightarrow> None)
          else None)"
| "parse_members (TString k # TColon # ts) =
     (case parse_value ts of
        None \<Rightarrow> None
      | Some (v, rest) \<Rightarrow>
          if length rest < length ts
          then (case rest of
                  TComma # rest1 \<Rightarrow>
                    (case parse_members rest1 of
                       None \<Rightarrow> None
                     | Some (ms, rest2) \<Rightarrow> Some ((k, v) # ms, rest2))
                | TRBrace # rest1 \<Rightarrow> Some ([(k, v)], rest1)
                | _ \<Rightarrow> None)
          else None)"
| "parse_members _ = None"
  by pat_completeness auto
termination
  by (relation "measure (\<lambda>x. case x of
          Inl ts \<Rightarrow> 2 * length ts
        | Inr (Inl ts) \<Rightarrow> 2 * length ts + 1
        | Inr (Inr ts) \<Rightarrow> 2 * length ts + 1)") auto

definition JSON_parse :: "string \<Rightarrow> json option" where
  "JSON_parse text =
     (case lex text of
        None \<Rightarrow> None
      | Some ts \<Rightarrow> (case parse_value ts of Some (v, []) \<Rightarrow> Some v | _ \<Rightarrow> None))"

text \<open>\<open>!v\<close> for a parsed value.\<close>

fun falsy :: "json \<Rightarrow> bool" where
  "falsy JNull = True"
| "falsy (JBool b) = (\<not> b)"
| "falsy (JNumber x) = (x = 0)"
| "falsy (JString s) = (s = [])"
| "falsy (JArray vs) = False"
| "falsy (JObject ms) = False"

text \<open>\<open>JSON.stringify\<close> of a string: the quoted text with its escapes.\<close>

definition hex_digit :: "nat \<Rightarrow> char" where
  "hex_digit n = (if n < 10 then char_of (48 + n) else char_of (87 + n))"

definition quote_char :: "char \<Rightarrow> string" where
  "quote_char c =
     (let n = code_unit c
      in if n = 8 then [CHR 0x5C, CHR ''b'']
         else if n = 9 then [CHR 0x5C, CHR ''t'']
         else if n = 10 then [CHR 0x5C, CHR ''n'']
         else if n = 12 then [CHR 0x5C, CHR ''f'']
         else if n = 13 then [CHR 0x5C, CHR ''r'']
         else if n = 34 then [CHR 0x5C, CHR 0x22]
         else if n = 92 then [CHR 0x5C, CHR 0x5C]
         else if n < 32
           then [CHR 0x5C, CHR ''u'', CHR ''0'', CHR ''0'', hex_digit (n div 16), hex_digit (n mod 16)]
         else [c])"

definition quote :: "string \<Rightarrow> string" where
  "quote s = CHR 0x22 # concat (map quote_char s) @ [CHR 0x22]"

section \<open>SessionManager\<close>

record SessionMetadata =
  meta_id :: string
  meta_createdAt :: int
  meta_version :: int

record Session =
  session_id :: string
  createdAt :: int
  updatedAt :: int
  messageCount :: nat
  transcriptPath :: string

text \<open>\<open>Omit<TranscriptEntry, 'id' | 'timestamp'>\<close>, with its keys in the order of the
  interface, as the callers write them.\<close>

record Message =
  msg_role :: role
  msg_content :: string
  msg_toolCall :: "ToolCall option"
  msg_toolResult :: "ToolResult option"

datatype error = SessionNotFound string | InvalidSessionId string

definition role_name :: "role \<Rightarrow> string" where
  "role_name r = (case r of User \<Rightarrow> ''user'' | Assistant \<Rightarrow> ''assistant'' | Tool \<Rightarrow> ''tool'')"

definition stringify_metadata :: "SessionMetadata \<Rightarrow> string" where
  "stringify_metadata m =
     ''{'' @ quote ''id'' @ '':'' @ quote (meta_id m)
       @ '','' @ quote ''createdAt'' @ '':'' @ string_of_int (meta_createdAt m)
       @ '','' @ quote ''version'' @ '':'' @ string_of_int (meta_version m) @ ''}''"

definition stringify_toolCall :: "ToolCall \<Rightarrow> string" where
  "stringify_toolCall c =
     ''{'' @ quote ''id'' @ '':'' @ quote (tc_id c)
       @ '','' @ quote ''name'' @ '':'' @ quote (tc_name c)
       @ '','' @ quote ''arguments'' @ '':'' @ quote (tc_arguments c) @ ''}''"

definition stringify_toolResult :: "ToolResult \<Rightarrow> string" where
  "stringify_toolResult r =
     ''{'' @ quote ''callId'' @ '':'' @ quote (tr_callId r)
       @ '','' @ quote ''success'' @ '':'' @ (if tr_success r then ''true'' else ''false'')
       @ '','' @ quote ''output'' @ '':'' @ quote (tr_output r) @ ''}''"

text \<open>\<open>JSON.stringify(entry)\<close>: an absent \<open>toolCall\<close> or \<open>toolResult\<close> leaves no key.\<close>

definition stringify_entry :: "TranscriptEntry \<Rightarrow> string" where
  "stringify_entry e =
     ''{'' @ quote ''id'' @ '':'' @ quote (entry_id e)
       @ '','' @ quote ''timestamp'' @ '':'' @ string_of_int (entry_timestamp e)
       @ '','' @ quote ''role'' @ '':'' @ quote (role_name (entry_role e))
       @ '','' @ quote ''content'' @ '':'' @ quote (entry_content e)
       @ (case toolCall e of
            None \<Rightarrow> []
          | Some c \<Rightarrow> '','' @ quote ''toolCall'' @ '':'' @ stringify_toolCall c)
       @ (case toolResult e of
            None \<Rightarrow> []
          | Some r \<Rightarrow> '','' @ quote ''toolResult'' @ '':'' @ stringify_toolResult r)
       @ ''}''"

text \<open>A transcript entry as the value that the caller of \<open>getHistory\<close> holds: the object
  with the entry's fields.\<close>

definition toolCall_json :: "ToolCall \<Rightarrow> json" where
  "toolCall_json c =
     JObject [(units ''id'', JString (units (tc_id c))),
              (units ''name'', JString (units (tc_name c))),
              (units ''arguments'', JString (units (tc_arguments c)))]"

definition toolResult_json :: "ToolResult \<Rightarrow> json" where
  "toolResult_json r =
     JObject [(units ''callId'', JString (units (tr_callId r))),
              (units ''success'', JBool (tr_success r)),
              (units ''output'', JString (units (tr_output r)))]"

definition entry_json :: "TranscriptEntry \<Rightarrow> json" where
  "entry_json e =
     JObject ([(units ''id'', JString (units (entry_id e))),
               (units ''timestamp'', JNumber (real_of_int (entry_timestamp e))),
               (units ''role'', JString (units (role_name (entry_role e)))),
               (units ''content'', JString (units (entry_content e)))]
              @ (case toolCall e of None \<Rightarrow> [] | Some c \<Rightarrow> [(units ''toolCall'', toolCall_json c)])
              @ (case toolResult e of None \<Rightarrow> [] | Some r \<Rightarrow> [(units ''toolResult'', toolResult_json r)]))"

text \<open>\<open>s.includes(sub)\<close> and \<open>s.split(c)\<close> for a one-character separator.\<close>

fun includes_str :: "string \<Rightarrow> string \<Rightarrow> bool" where
  "includes_str sub [] = (sub = [])"
| "includes_str sub (c # cs) = (starts_with sub (c # cs) \<or> includes_str sub cs)"

fun split_char :: "char \<Rightarrow> string \<Rightarrow> string list" where
  "split_char sep [] = [[]]"
| "split_char sep (c # cs) =
     (if c = sep then [] # split_char sep cs
      else (case split_char sep cs of
              [] \<Rightarrow> [[c]]
            | line # lines \<Rightarrow> (c # line) # lines))"

text \<open>
  The session logs: the content of the transcript file of each session id that has one.
  \<open>Workspace.sessionPath\<close> refuses an id with a path separator or \<open>..\<close>; a failing file
  operation of the platform is not modelled.
\<close>

type_synonym transcripts = "string \<rightharpoonup> string"

definition invalid_session_id :: "string \<Rightarrow> bool" where
  "invalid_session_id sessionId =
     (includes_str ''/'' sessionId \<or> includes_str [CHR 0x5C] sessionId \<or> includes_str ''..'' sessionId)"

definition sessionPath :: "string \<Rightarrow> string" where
  "sessionPath sessionId = ''sessions/'' @ sessionId @ ''.jsonl''"

text \<open>\<open>create\<close>; \<open>uuid\<close> and \<open>now\<close> are what \<open>randomUUID()\<close> and \<open>Date.now()\<close> return.\<close>

definition create :: "transcripts \<Rightarrow> string \<Rightarrow> int \<Rightarrow> error + (Session \<times> transcripts)" where
  "create fs uuid now =
     (if invalid_session_id uuid then Inl (InvalidSessionId uuid)
      else Inr (\<lparr>session_id = uuid, createdAt = now, updatedAt = now, messageCount = 0,
                 transcriptPath = sessionPath uuid\<rparr>,
                fs(uuid \<mapsto> CHR ''#''
                     # stringify_metadata \<lparr>meta_id = uuid, meta_createdAt = now, meta_version = 1\<rparr>
                     @ [CHR 0x0A])))"

definition appendMessage ::
  "transcripts \<Rightarrow> string \<Rightarrow> string \<Rightarrow> int \<Rightarrow> Message \<Rightarrow> error + (TranscriptEntry \<times> transcripts)" where
  "appendMessage fs sessionId uuid now message =
     (if invalid_session_id sessionId then Inl (InvalidSessionId sessionId)
      else (case fs sessionId of
              None \<Rightarrow> Inl (SessionNotFound sessionId)
            | Some content \<Rightarrow>
                (let entry = \<lparr>entry_id = uuid, entry_role = msg_role message,
                              entry_content = msg_content message, entry_timestamp = now,
                              toolCall = msg_toolCall message,
                              toolResult = msg_toolResult message\<rparr>;
                     line = stringify_entry entry @ [CHR 0x0A]
                 in Inr (entry, fs(sessionId \<mapsto> content @ line)))))"

text \<open>The loop of \<open>getHistory\<close> over the non-blank lines.\<close>

fun read_entries :: "string list \<Rightarrow> json list" where
  "read_entries [] = []"
| "read_entries (line # rest) =
     (if starts_with ''#'' line then read_entries rest
      else (case JSON_parse line of
              Some entry \<Rightarrow> entry # read_entries rest
            | None \<Rightarrow> read_entries rest))"

definition non_blank_lines :: "string \<Rightarrow> string list" where
  "non_blank_lines content = filter (\<lambda>line. length (trim line) > 0) (split_char (CHR 0x0A) content)"

definition getHistory :: "transcripts \<Rightarrow> string \<Rightarrow> error + json list" where
  "getHistory fs sessionId =
     (if invalid_session_id sessionId then Inl (InvalidSessionId sessionId)
      else (case fs sessionId of
              None \<Rightarrow> Inl (SessionNotFound sessionId)
            | Some content \<Rightarrow> Inr (read_entries (non_blank_lines content))))"

text \<open>The loop of \<open>repair\<close> over all lines; \<open>st_metadata\<close> is \<open>None\<close> while the variable
  \<open>metadata\<close> is \<open>null\<close>.\<close>

record repair_state =
  st_validLines :: "string list"
  st_metadata :: "json option"
  st_recovered :: nat
  st_lost :: nat

fun repair_scan :: "string list \<Rightarrow> repair_state \<Rightarrow> repair_state" where
  "repair_scan [] st = st"
| "repair_scan (line # rest) st =
     (let trimmed = trim line
      in if length trimmed = 0 then repair_scan rest st
         else if starts_with ''#'' trimmed then
           (case JSON_parse (drop 1 trimmed) of
              Some m \<Rightarrow>
                repair_scan rest
                  (st\<lparr>st_metadata := Some m, st_validLines := st_validLines st @ [trimmed]\<rparr>)
            | None \<Rightarrow> repair_scan rest st)
         else
           (case JSON_parse trimmed of
              Some entry \<Rightarrow>
                repair_scan rest
                  (st\<lparr>st_validLines := st_validLines st @ [trimmed],
                      st_recovered := st_recovered st + 1\<rparr>)
            | None \<Rightarrow> repair_scan rest (st\<lparr>st_lost := st_lost st + 1\<rparr>)))"

definition no_metadata :: "repair_state \<Rightarrow> bool" where
  "no_metadata st = (case st_metadata st of None \<Rightarrow> True | Some m \<Rightarrow> falsy m)"

record repair_report =
  repaired :: bool
  entriesRecovered :: nat
  entriesLost :: nat

text \<open>What \<open>repair\<close> writes back and what it reports, for the content it read;
  \<open>birthtimeMs\<close> is the file's creation time as \<open>stat\<close> gives it, in whole
  milliseconds.\<close>

definition repair_content :: "string \<Rightarrow> int \<Rightarrow> string \<Rightarrow> repair_report \<times> string" where
  "repair_content sessionId birthtimeMs content =
     (let st = repair_scan (split_char (CHR 0x0A) content)
                 \<lparr>st_validLines = [], st_metadata = None, st_recovered = 0, st_lost = 0\<rparr>;
          validLines =
            (if no_metadata st
             then (CHR ''#'' # stringify_metadata
                     \<lparr>meta_id = sessionId, meta_createdAt = birthtimeMs, meta_version = 1\<rparr>)
                  # st_validLines st
             else st_validLines st);
          repairedContent = join [CHR 0x0A] validLines @ [CHR 0x0A]
      in (\<lparr>repaired = (st_lost st > 0), entriesRecovered = st_recovered st,
            entriesLost = st_lost st\<rparr>, repairedContent))"

definition repair :: "transcripts \<Rightarrow> string \<Rightarrow> int \<Rightarrow> error + (repair_report \<times> transcripts)" where
  "repair fs sessionId birthtimeMs =
     (if invalid_session_id sessionId then Inl (InvalidSessionId sessionId)
      else (case fs sessionId of
              None \<Rightarrow> Inl (SessionNotFound sessionId)
            | Some content \<Rightarrow>
                (let r = repair_content sessionId birthtimeMs content
                 in Inr (fst r, fs(sessionId \<mapsto> snd r)))))"

section \<open>Examples\<close>

definition four_notes :: "index_op list" where
  "four_notes =
     [AddDocument ''a'' ''memory/a.md'' ''TypeScript is a typed language'' 1000,
      AddDocument ''b'' ''memory/b.md'' ''Python is a dynamic language'' 2000,
      AddDocument ''c'' ''memory/c.md'' ''Rust is a systems language'' 3000,
      AddDocument ''d'' ''memory/d.md'' ''Go is a small language'' 4000]"

definition example_env :: compact_env where
  "example_env = \<lparr>now_summary = 1700000000000, now_flush = 1700000000001,
                   iso_flush = ''2023-11-14T22:13:20.001Z'', write_ok = True\<rparr>"



definition unrelated_history :: "TranscriptEntry list" where
  "unrelated_history =
     [\<lparr>entry_id = ''e1'', entry_role = User, entry_content = ''completely unrelated words'',
       entry_timestamp = 1000, toolCall = None, toolResult = None\<rparr>]"

section \<open>Verification: document frequencies\<close>

lemma get_or_0_update: "get_or_0 (AList.update k v m) t = (if t = k then v else get_or_0 m t)"
  by (simp add: get_or_0_def update_conv')

lemma get_or_0_delete: "get_or_0 (AList.delete k m) t = (if t = k then 0 else get_or_0 m t)"
  by (simp add: get_or_0_def delete_conv')

lemma get_or_0_df_remove:
  "get_or_0 (df_remove m k) t = (if t = k then get_or_0 m k - 1 else get_or_0 m t)"
  by (simp add: df_remove_def Let_def get_or_0_update get_or_0_delete)

lemma get_or_0_df_add:
  "get_or_0 (df_add m k) t = (if t = k then get_or_0 m k + 1 else get_or_0 m t)"
  by (simp add: df_add_def get_or_0_update)

lemma get_or_0_foldl_df_remove:
  "distinct ks \<Longrightarrow>
   get_or_0 (foldl df_remove m ks) t = get_or_0 m t - (if t \<in> set ks then 1 else 0)"
  by (induction ks arbitrary: m) (auto simp: get_or_0_df_remove)

lemma get_or_0_foldl_df_add:
  "distinct ks \<Longrightarrow>
   get_or_0 (foldl df_add m ks) t = get_or_0 m t + (if t \<in> set ks then 1 else 0)"
  by (induction ks arbitrary: m) (auto simp: get_or_0_df_add)

lemma distinct_foldl_update:
  "distinct (map fst m) \<Longrightarrow>
   distinct (map fst (foldl (\<lambda>m term. AList.update term (f m term) m) m ts))"
  by (induction ts arbitrary: m) (simp_all add: distinct_update)

lemma distinct_count_terms: "distinct (map fst (count_terms ts))"
  by (simp add: count_terms_def distinct_foldl_update)

lemma docs_containing_eq: "docs_containing idx term = containing (documents idx) term"
  by (simp add: docs_containing_def containing_def)

lemma containing_update:
  "distinct (map fst docs) \<Longrightarrow>
   containing (AList.update i d docs) t
     = containing (AList.delete i docs) t + (if has_term d t then 1 else 0)"
  by (induction docs) (auto simp: containing_def delete_id image_iff)

lemma containing_present:
  "distinct (map fst docs) \<Longrightarrow> map_of docs i = Some old \<Longrightarrow>
   containing docs t = containing (AList.delete i docs) t + (if has_term old t then 1 else 0)"
  by (induction docs) (auto simp: containing_def delete_id image_iff split: if_splits)

lemma delete_absent: "map_of docs i = None \<Longrightarrow> AList.delete i docs = docs"
  by (simp add: delete_id map_of_eq_None_iff)

lemma list_all_update: "list_all P (map snd docs) \<Longrightarrow> P d \<Longrightarrow> list_all P (map snd (AList.update i d docs))"
  by (induction docs) auto
lemma list_all_delete: "list_all P (map snd docs) \<Longrightarrow> list_all P (map snd (AList.delete i docs))"
  by (induction docs) auto
lemma list_all_map_of: "list_all P (map snd docs) \<Longrightarrow> map_of docs i = Some d \<Longrightarrow> P d"
  by (induction docs) (auto split: if_splits)

lemma updateAvgDocLength_fields [simp]: "documents (updateAvgDocLength idx) = documents idx"
  "documentFrequency (updateAvgDocLength idx) = documentFrequency idx"
  "config (updateAvgDocLength idx) = config idx"
  by (simp_all add: updateAvgDocLength_def)

lemma documents_addDocument:
  "documents (addDocument idx i p c ts) = AList.update i
      \<lparr>doc_id = i, doc_path = p, doc_content = c, doc_timestamp = ts,
       doc_terms = count_terms (tokenize c), doc_length = length (tokenize c)\<rparr> (documents idx)"
  by (simp add: addDocument_def Let_def)

lemma documentFrequency_addDocument:
  "documentFrequency (addDocument idx i p c ts) =
     foldl df_add
       (case map_of (documents idx) i of
          Some existingDoc \<Rightarrow> foldl df_remove (documentFrequency idx) (map fst (doc_terms existingDoc))
        | None \<Rightarrow> documentFrequency idx)
       (map fst (count_terms (tokenize c)))"
  by (simp add: addDocument_def Let_def)

lemma index_inv_addDocument:
  assumes inv: "index_inv idx" shows "index_inv (addDocument idx i p c ts)"
proof -
  let ?d = "\<lparr>doc_id = i, doc_path = p, doc_content = c, doc_timestamp = ts,
       doc_terms = count_terms (tokenize c), doc_length = length (tokenize c)\<rparr>"
  from inv have dist: "distinct (map fst (documents idx))"
    and all: "list_all (\<lambda>d. distinct (map fst (doc_terms d))) (map snd (documents idx))"
    and df: "\<And>t. get_or_0 (documentFrequency idx) t = containing (documents idx) t"
    by (simp_all add: index_inv_def)
  have 1: "distinct (map fst (documents (addDocument idx i p c ts)))"
    by (simp add: documents_addDocument distinct_update dist)
  have 2: "list_all (\<lambda>d. distinct (map fst (doc_terms d))) (map snd (documents (addDocument idx i p c ts)))"
    by (simp add: documents_addDocument list_all_update all distinct_count_terms)
  have 3: "get_or_0 (documentFrequency (addDocument idx i p c ts)) t
         = containing (documents (addDocument idx i p c ts)) t" for t
  proof (cases "map_of (documents idx) i")
    case None
    then show ?thesis
      by (simp add: documents_addDocument documentFrequency_addDocument get_or_0_foldl_df_add
          distinct_count_terms df containing_update[OF dist] delete_absent has_term_def)
  next
    case (Some old)
    have d: "distinct (map fst (doc_terms old))"
      using all Some by (auto dest: list_all_map_of)
    show ?thesis
      by (simp add: Some documents_addDocument documentFrequency_addDocument
          get_or_0_foldl_df_add get_or_0_foldl_df_remove d
          distinct_count_terms df containing_update[OF dist] containing_present[OF dist Some]
          has_term_def)
  qed
  from 1 2 3 show ?thesis unfolding index_inv_def by blast
qed

lemma index_inv_removeDocument:
  assumes inv: "index_inv idx" shows "index_inv (snd (removeDocument idx i))"
proof (cases "map_of (documents idx) i")
  case None
  with assms show ?thesis by (simp add: removeDocument_def)
next
  case (Some old)
  from inv have dist: "distinct (map fst (documents idx))"
    and all: "list_all (\<lambda>d. distinct (map fst (doc_terms d))) (map snd (documents idx))"
    and df: "\<And>t. get_or_0 (documentFrequency idx) t = containing (documents idx) t"
    by (simp_all add: index_inv_def)
  have d: "distinct (map fst (doc_terms old))"
    using all Some by (auto dest: list_all_map_of)
  show ?thesis
    by (simp add: index_inv_def removeDocument_def Some distinct_delete dist
        list_all_delete all get_or_0_foldl_df_remove d df containing_present[OF dist Some]
        has_term_def)
qed

lemma index_inv_clear: "index_inv (clear idx)"
  by (simp add: index_inv_def clear_def containing_def get_or_0_def)

lemma index_inv_new: "index_inv (new_BM25Index cfg)"
  by (simp add: index_inv_def new_BM25Index_def containing_def get_or_0_def)

lemma index_inv_apply_op: "index_inv idx \<Longrightarrow> index_inv (apply_op idx op)"
  by (cases op) (simp_all add: index_inv_addDocument index_inv_removeDocument index_inv_clear)

lemma index_inv_foldl: "index_inv idx \<Longrightarrow> index_inv (foldl apply_op idx ops)"
  by (induction ops arbitrary: idx) (simp_all add: index_inv_apply_op)

lemma index_inv_index_after: "index_inv (index_after cfg ops)"
  by (simp add: index_after_def index_inv_foldl index_inv_new)


text \<open>
  Claim C1 (document-frequency invariant). After every sequence of \<open>addDocument\<close>,
  \<open>removeDocument\<close> (and \<open>clear\<close>) calls on a fresh index, re-adding a present id
  included, the global document-frequency counter of every term (\<open>get(term) ?? 0\<close>) is the
  number of stored documents whose term-frequency map has the term. The loop that subtracts
  the old document's terms runs before the loop that adds the new ones, so a re-indexed id
  is counted once.
\<close>

theorem document_frequency_invariant:
  "get_or_0 (documentFrequency (index_after cfg ops)) term
     = docs_containing (index_after cfg ops) term"
proof -
  have "index_inv (index_after cfg ops)"
    by (rule index_inv_index_after)
  then have "get_or_0 (documentFrequency (index_after cfg ops)) term
      = containing (documents (index_after cfg ops)) term"
    by (simp add: index_inv_def)
  then show ?thesis
    by (simp add: docs_containing_eq)
qed

theorem document_frequency_invariant_witness:
  "get_or_0 (documentFrequency (index_after DEFAULT_BM25_CONFIG
      [AddDocument ''a'' ''a.md'' ''Typed notes, typed code'' 1,
       AddDocument ''b'' ''b.md'' ''Code review'' 2,
       AddDocument ''a'' ''a.md'' ''Plain notes'' 3,
       RemoveDocument ''c'',
       AddDocument ''c'' ''c.md'' ''notes on code'' 4])) ''notes'' = 2"
proof -
  have count: "docs_containing (index_after DEFAULT_BM25_CONFIG
      [AddDocument ''a'' ''a.md'' ''Typed notes, typed code'' 1,
       AddDocument ''b'' ''b.md'' ''Code review'' 2,
       AddDocument ''a'' ''a.md'' ''Plain notes'' 3,
       RemoveDocument ''c'',
       AddDocument ''c'' ''c.md'' ''notes on code'' 4]) ''notes'' = 2"
    by code_simp
  show ?thesis
    by (rule trans [OF document_frequency_invariant count])
qed

section \<open>Verification: ranking\<close>

lemma get_or_0_foldl_count:
  "get_or_0 (foldl (\<lambda>m term. AList.update term (get_or_0 m term + 1) m) m ts) t
     = get_or_0 m t + count_list ts t"
  by (induction ts arbitrary: m) (auto simp: get_or_0_update)

lemma get_or_0_count_terms: "get_or_0 (count_terms ts) t = count_list ts t"
proof -
  have "get_or_0 [] t = 0"
    by (simp add: get_or_0_def)
  then show ?thesis
    unfolding count_terms_def get_or_0_foldl_count by simp
qed

lemma keys_foldl_count:
  "fst ` set (foldl (\<lambda>m term. AList.update term (f m term) m) m ts) = fst ` set m \<union> set ts"
  by (induction ts arbitrary: m) (auto simp: dom_update)

lemma keys_count_terms: "fst ` set (count_terms ts) = set ts"
  by (simp add: count_terms_def keys_foldl_count)

lemma wf_doc_has_term: "wf_doc d \<Longrightarrow> has_term d t \<longleftrightarrow> t \<in> set (tokenize (doc_content d))"
  by (simp add: wf_doc_def has_term_def keys_count_terms)

lemma wf_doc_tf: "wf_doc d \<Longrightarrow> get_or_0 (doc_terms d) t = term_frequency t (doc_content d)"
  by (simp add: wf_doc_def term_frequency_def get_or_0_count_terms)

lemma foldl_total_length:
  "foldl (\<lambda>totalLength d. totalLength + doc_length d) a ds = a + sum_list (map doc_length ds)"
  by (induction ds arbitrary: a) simp_all

lemma index_wf_updateAvg:
  "list_all wf_doc (map snd (documents idx)) \<Longrightarrow> index_wf (updateAvgDocLength idx)"
  by (simp add: index_wf_def updateAvgDocLength_def mean_length_def foldl_total_length)

lemma index_wf_addDocument:
  assumes "index_wf idx" shows "index_wf (addDocument idx i p c ts)"
proof -
  have "wf_doc \<lparr>doc_id = i, doc_path = p, doc_content = c, doc_timestamp = ts,
       doc_terms = count_terms (tokenize c), doc_length = length (tokenize c)\<rparr>"
    by (simp add: wf_doc_def)
  with assms have "list_all wf_doc (map snd (documents (addDocument idx i p c ts)))"
    by (simp add: documents_addDocument index_wf_def list_all_update)
  then show ?thesis
    by (simp add: addDocument_def Let_def index_wf_updateAvg)
qed

lemma index_wf_removeDocument:
  assumes "index_wf idx" shows "index_wf (snd (removeDocument idx i))"
proof (cases "map_of (documents idx) i")
  case None
  with assms show ?thesis by (simp add: removeDocument_def)
next
  case (Some old)
  from assms have "list_all wf_doc (map snd (AList.delete i (documents idx)))"
    by (simp add: index_wf_def list_all_delete)
  then show ?thesis
    by (simp add: removeDocument_def Some index_wf_updateAvg)
qed

lemma index_wf_clear: "index_wf (clear idx)"
  by (simp add: index_wf_def clear_def mean_length_def)

lemma index_wf_new: "index_wf (new_BM25Index cfg)"
  by (simp add: index_wf_def new_BM25Index_def mean_length_def)

lemma index_wf_foldl: "index_wf idx \<Longrightarrow> index_wf (foldl apply_op idx ops)"
proof (induction ops arbitrary: idx)
  case Nil
  then show ?case by simp
next
  case (Cons op ops)
  have "index_wf (apply_op idx op)"
    using Cons.prems
    by (cases op) (simp_all add: index_wf_addDocument index_wf_removeDocument index_wf_clear)
  then show ?case
    by (simp add: Cons.IH)
qed

lemma index_wf_index_after: "index_wf (index_after cfg ops)"
  by (simp add: index_after_def index_wf_foldl index_wf_new)

lemma config_apply_op: "config (apply_op idx op) = config idx"
  by (cases op) (simp_all add: addDocument_def removeDocument_def clear_def Let_def split: option.splits)

lemma config_foldl: "config (foldl apply_op idx ops) = config idx"
  by (induction ops arbitrary: idx) (simp_all add: config_apply_op)

lemma config_index_after: "config (index_after cfg ops) = cfg"
  by (simp add: index_after_def config_foldl new_BM25Index_def)

lemma containing_document_frequency:
  "list_all wf_doc (map snd docs) \<Longrightarrow>
   containing docs t = document_frequency t (map doc_content (map snd docs))"
  by (induction docs) (auto simp: containing_def document_frequency_def wf_doc_has_term)

lemma sum_doc_length:
  "list_all wf_doc ds \<Longrightarrow>
   sum_list (map doc_length ds) = sum_list (map (\<lambda>c. length (tokenize c)) (map doc_content ds))"
  by (induction ds) (auto simp: wf_doc_def)

lemma document_frequency_pos:
  "c \<in> set contents \<Longrightarrow> t \<in> set (tokenize c) \<Longrightarrow> 0 < document_frequency t contents"
  by (auto simp: document_frequency_def filter_empty_conv)

lemma document_frequency_le: "document_frequency t contents \<le> length contents"
  by (simp add: document_frequency_def)

lemma total_length_pos:
  "c \<in> set contents \<Longrightarrow> t \<in> set (tokenize c) \<Longrightarrow>
   0 < sum_list (map (\<lambda>c. length (tokenize c)) contents)"
proof (induction contents)
  case Nil
  then show ?case by simp
next
  case (Cons a contents)
  then show ?case
    by (cases "tokenize a") auto
qed

text \<open>One step of the sum of the score, for a stored document of a reachable index.\<close>

lemma summand_eq:
  assumes inv: "index_inv idx" and wf: "index_wf idx"
    and d: "d \<in> set (map snd (documents idx))"
    and tf: "term_frequency t (doc_content d) \<noteq> 0"
  shows "f_mul A (idf A idx t) (tfNorm A idx d (get_or_0 (doc_terms d) t))
       = f_mul A (spec_idf A (length (documents idx))
                    (document_frequency t (map doc_content (map snd (documents idx)))))
           (spec_tfNorm A (fl A (cfg_k1 (config idx))) (fl A (cfg_b (config idx)))
              (fl A (real (term_frequency t (doc_content d))))
              (fl A (real (length (tokenize (doc_content d)))))
              (fl A (real (sum_list (map (\<lambda>c. length (tokenize c))
                                      (map doc_content (map snd (documents idx)))))
                     / real (length (documents idx)))))"
proof -
  let ?docs = "map snd (documents idx)"
  let ?contents = "map doc_content ?docs"
  from wf have all: "list_all wf_doc ?docs"
    and avg: "avgDocLength idx = mean_length ?docs"
    by (simp_all add: index_wf_def)
  from all d have wfd: "wf_doc d"
    by (auto simp: list_all_iff)
  have tf_eq: "get_or_0 (doc_terms d) t = term_frequency t (doc_content d)"
    by (rule wf_doc_tf [OF wfd])
  from tf have t_in: "t \<in> set (tokenize (doc_content d))"
    by (simp add: term_frequency_def count_list_0_iff)
  from d have c_in: "doc_content d \<in> set ?contents"
    by auto
  have df: "get_or_0 (documentFrequency idx) t = document_frequency t ?contents"
    using inv all by (simp add: index_inv_def containing_document_frequency)
  have df_pos: "0 < document_frequency t ?contents"
    by (rule document_frequency_pos [OF c_in t_in])
  from d have nonempty: "documents idx \<noteq> []"
    by auto
  have idf: "idf A idx t = spec_idf A (length (documents idx)) (document_frequency t ?contents)"
    using df_pos nonempty by (simp add: idf_def Let_def df spec_idf_def)
  define S where "S = sum_list (map (\<lambda>c. length (tokenize c)) ?contents)"
  define N where "N = length (documents idx)"
  have total: "0 < S"
    unfolding S_def by (rule total_length_pos [OF c_in t_in])
  have N_pos: "0 < N"
    using nonempty by (simp add: N_def)
  have "sum_list (map doc_length ?docs) = S"
    unfolding S_def by (rule sum_doc_length [OF all])
  then have mean: "avgDocLength idx = real S / real N"
    using nonempty by (simp add: avg mean_length_def N_def)
  have "avgDocLength idx \<noteq> 0"
    using total N_pos by (simp add: mean)
  then have "tfNorm A idx d (term_frequency t (doc_content d))
      = spec_tfNorm A (fl A (cfg_k1 (config idx))) (fl A (cfg_b (config idx)))
           (fl A (real (term_frequency t (doc_content d))))
           (fl A (real (length (tokenize (doc_content d))))) (fl A (real S / real N))"
    using wfd by (simp add: tfNorm_def lengthNorm_def spec_tfNorm_def mean wf_doc_def)
  then have norm: "tfNorm A idx d (term_frequency t (doc_content d))
      = spec_tfNorm A (fl A (cfg_k1 (config idx))) (fl A (cfg_b (config idx)))
           (fl A (real (term_frequency t (doc_content d))))
           (fl A (real (length (tokenize (doc_content d)))))
           (fl A (real (sum_list (map (\<lambda>c. length (tokenize c)) ?contents))
              / real (length (documents idx))))"
    by (simp only: S_def N_def)
  show ?thesis
    by (simp only: tf_eq idf norm)
qed

lemma foldl_same:
  "(\<And>a x. x \<in> set xs \<Longrightarrow> f a x = g a x) \<Longrightarrow> foldl f a xs = foldl g a xs"
  by (induction xs arbitrary: a) simp_all

lemma score_eq_spec:
  assumes inv: "index_inv idx" and wf: "index_wf idx"
    and d: "d \<in> set (map snd (documents idx))"
  shows "score A idx d queryTerms
       = spec_score A (cfg_k1 (config idx)) (cfg_b (config idx))
           (map doc_content (map snd (documents idx))) (doc_content d) queryTerms"
proof -
  from wf d have wfd: "wf_doc d"
    by (auto simp: index_wf_def list_all_iff)
  have tf_eq: "get_or_0 (doc_terms d) t = term_frequency t (doc_content d)" for t
    by (rule wf_doc_tf [OF wfd])
  show ?thesis
    unfolding score_def spec_score_def Let_def length_map
  proof (rule foldl_same)
    fix a t
    show "(if get_or_0 (doc_terms d) t = 0 then a
           else f_add A a (f_mul A (idf A idx t) (tfNorm A idx d (get_or_0 (doc_terms d) t))))
        = (if term_frequency t (doc_content d) = 0 then a
           else f_add A a
                  (f_mul A (spec_idf A (length (documents idx))
                       (document_frequency t (map doc_content (map snd (documents idx)))))
                     (spec_tfNorm A (fl A (cfg_k1 (config idx))) (fl A (cfg_b (config idx)))
                        (fl A (real (term_frequency t (doc_content d))))
                        (fl A (real (length (tokenize (doc_content d)))))
                        (fl A (real (sum_list (map (\<lambda>c. length (tokenize c))
                                      (map doc_content (map snd (documents idx)))))
                               / real (length (documents idx)))))))"
    proof (cases "term_frequency t (doc_content d) = 0")
      case True
      then show ?thesis
        by (simp add: tf_eq)
    next
      case False
      with summand_eq [OF inv wf d False, of A] show ?thesis
        by (simp add: tf_eq)
    qed
  qed
qed


lemma set_insert_by_score [simp]: "set (insert_by_score A f x ys) = insert x (set ys)"
  by (induction ys) auto

lemma length_insert_by_score [simp]: "length (insert_by_score A f x ys) = Suc (length ys)"
  by (induction ys) auto

lemma mset_insert_by_score [simp]: "mset (insert_by_score A f x ys) = add_mset x (mset ys)"
  by (induction ys) auto

lemma set_sort_by_score_desc [simp]: "set (sort_by_score_desc A f xs) = set xs"
  by (induction xs) (simp_all add: sort_by_score_desc_def)

lemma length_sort_by_score_desc [simp]: "length (sort_by_score_desc A f xs) = length xs"
  by (induction xs) (simp_all add: sort_by_score_desc_def)

lemma mset_sort_by_score_desc [simp]: "mset (sort_by_score_desc A f xs) = mset xs"
  by (induction xs) (simp_all add: sort_by_score_desc_def)

lemma sort_by_score_desc_Nil [simp]: "sort_by_score_desc A f [] = []"
  by (simp add: sort_by_score_desc_def)

lemma sort_by_score_desc_Cons:
  "sort_by_score_desc A f (x # xs) = insert_by_score A f x (sort_by_score_desc A f xs)"
  by (simp add: sort_by_score_desc_def)



text \<open>And it is stable: the elements that the comparator does not order against a
  number \<open>k\<close> keep their order.\<close>

lemma filter_insert_by_score:
  assumes cons: "consistent_comparator A"
    and pos: "\<forall>y \<in> set (x # ys). f_less A (fl A 0) (f y)" and k: "f_less A (fl A 0) k"
  shows "filter (\<lambda>y. \<not> comes_first A (f y) k \<and> \<not> comes_first A k (f y)) (insert_by_score A f x ys)
       = filter (\<lambda>y. \<not> comes_first A (f y) k \<and> \<not> comes_first A k (f y)) (x # ys)"
  using pos
proof (induction ys)
  case Nil
  then show ?case by simp
next
  case (Cons y ys)
  have px: "f_less A (fl A 0) (f x)" and py: "f_less A (fl A 0) (f y)"
    using Cons.prems by simp_all
  show ?case
  proof (cases "comes_first A (f y) (f x)")
    case False
    then show ?thesis by simp
  next
    case True
    have not_both: "\<not> ((\<not> comes_first A (f y) k \<and> \<not> comes_first A k (f y))
                     \<and> (\<not> comes_first A (f x) k \<and> \<not> comes_first A k (f x)))"
      using cons True px py k unfolding consistent_comparator_def by blast
    have IH: "filter (\<lambda>y. \<not> comes_first A (f y) k \<and> \<not> comes_first A k (f y)) (insert_by_score A f x ys)
       = filter (\<lambda>y. \<not> comes_first A (f y) k \<and> \<not> comes_first A k (f y)) (x # ys)"
      using Cons.IH Cons.prems by simp
    show ?thesis
      using True not_both by (simp add: IH) blast
  qed
qed

lemma sort_by_score_desc_stable:
  assumes cons: "consistent_comparator A"
    and pos: "\<forall>y \<in> set xs. f_less A (fl A 0) (f y)" and k: "f_less A (fl A 0) k"
  shows "filter (\<lambda>y. \<not> comes_first A (f y) k \<and> \<not> comes_first A k (f y)) (sort_by_score_desc A f xs)
       = filter (\<lambda>y. \<not> comes_first A (f y) k \<and> \<not> comes_first A k (f y)) xs"
  using pos
proof (induction xs)
  case Nil
  then show ?case by simp
next
  case (Cons x xs)
  have "\<forall>y \<in> set (x # sort_by_score_desc A f xs). f_less A (fl A 0) (f y)"
    using Cons.prems by simp
  from filter_insert_by_score [OF cons this k] Cons show ?case
    by (simp add: sort_by_score_desc_Cons)
qed

text \<open>Elements of which none comes first of another stay as they are.\<close>

lemma sort_by_score_desc_ties:
  assumes "\<forall>x \<in> set xs. \<forall>y \<in> set xs. \<not> comes_first A (f x) (f y)"
  shows "sort_by_score_desc A f xs = xs"
  using assms
proof (induction xs)
  case Nil
  then show ?case by simp
next
  case (Cons x xs)
  then have "sort_by_score_desc A f xs = xs"
    by simp
  moreover have "insert_by_score A f x xs = x # xs"
    using Cons.prems by (cases xs) simp_all
  ultimately show ?case
    by (simp add: sort_by_score_desc_Cons)
qed

lemma length_slice0:
  "length (slice0 xs n) = (if n < 0 then length xs - nat (- n) else min (nat n) (length xs))"
  by (auto simp: slice0_def min_def)

lemma slice0_negative: "n < 0 \<Longrightarrow> slice0 xs n = take (length xs - nat (- n)) xs"
proof -
  assume "n < 0"
  then have "nat (int (length xs) + n) = length xs - nat (- n)"
    by linarith
  with \<open>n < 0\<close> show ?thesis
    by (simp add: slice0_def)
qed

lemma slice0_all: "int (length xs) \<le> n \<Longrightarrow> slice0 xs n = xs"
  by (simp add: slice0_def)






lemma search_subset:
  "set (search A idx query limit) \<subseteq> set (scored_documents A idx (tokenize query))"
proof -
  have "set (slice0 xs n) \<subseteq> set xs" for xs :: "(IndexedDocument \<times> 'a) list" and n
    by (auto simp: slice0_def dest: in_set_takeD)
  from this [of "sort_by_score_desc A snd (scored_documents A idx (tokenize query))" limit]
  show ?thesis
    by (auto simp: search_def Let_def)
qed




lemma exact_fields [simp]:
  "fl exact x = x" "f_add exact x y = x + y" "f_sub exact x y = x - y"
  "f_mul exact x y = x * y" "f_div exact x y = x / y" "Math_log exact x = ln x"
  "Math_pow exact x y = x powr y" "Math_max exact x y = max x y"
  "f_less exact x y \<longleftrightarrow> x < y" "exceeds_neg_infinity exact x"
  by (simp_all add: exact_def)

lemma comes_first_exact [simp]: "comes_first exact x y \<longleftrightarrow> y < x"
  by (simp add: comes_first_def)



lemma spec_idf_exact_nonneg: "df \<le> N \<Longrightarrow> 0 \<le> spec_idf exact N df"
proof -
  assume "df \<le> N"
  then have "0 \<le> (real N - real df + 5 / 10) / (real df + 5 / 10)"
    by simp
  then show ?thesis
    by (simp add: spec_idf_def)
qed

lemma spec_idf_exact_pos: "df \<le> N \<Longrightarrow> 0 < spec_idf exact N df"
proof -
  assume "df \<le> N"
  then have "0 < (real N - real df + 5 / 10) / (real df + 5 / 10)"
    by (simp add: add_pos_nonneg)
  then show ?thesis
    by (simp add: spec_idf_def)
qed

text \<open>For \<open>0 \<le> k1\<close> and \<open>0 \<le> b \<le> 1\<close>, as the defaults are.\<close>

lemma length_norm_nonneg:
  fixes b :: real
  assumes "0 \<le> b" and "b \<le> 1" and "0 \<le> docLen" and "0 \<le> avgDocLen"
  shows "0 \<le> 1 - b + b * (docLen / avgDocLen)"
proof -
  from assms have "0 \<le> b * (docLen / avgDocLen)"
    by (intro mult_nonneg_nonneg divide_nonneg_nonneg)
  with assms(2) show ?thesis
    by linarith
qed

lemma spec_tfNorm_exact_pos:
  assumes "0 \<le> k1" and "0 \<le> b" and "b \<le> 1"
    and "0 < tf" and "0 \<le> docLen" and "0 \<le> avgDocLen"
  shows "0 < spec_tfNorm exact k1 b tf docLen avgDocLen"
proof -
  have "0 \<le> k1 * (1 - b + b * (docLen / avgDocLen))"
    using assms by (intro mult_nonneg_nonneg length_norm_nonneg)
  with assms(4) have "0 < tf + k1 * (1 - b + b * (docLen / avgDocLen))"
    by linarith
  moreover have "0 < tf * (k1 + 1)"
    using assms(1,4) by (intro mult_pos_pos) linarith+
  ultimately show ?thesis
    unfolding spec_tfNorm_def exact_fields by (rule divide_pos_pos [rotated])
qed

lemma foldl_skip_pos:
  fixes g :: "'a \<Rightarrow> real"
  assumes "\<And>t. t \<in> set ts \<Longrightarrow> \<not> skip t \<Longrightarrow> 0 < g t" and "0 \<le> a"
  shows "0 \<le> foldl (\<lambda>sum t. if skip t then sum else sum + g t) a ts
       \<and> ((0 < a \<or> (\<exists>t \<in> set ts. \<not> skip t))
            \<longrightarrow> 0 < foldl (\<lambda>sum t. if skip t then sum else sum + g t) a ts)"
  using assms
proof (induction ts arbitrary: a)
  case Nil
  then show ?case by simp
next
  case (Cons t ts)
  show ?case
  proof (cases "skip t")
    case True
    with Cons.IH [of a] Cons.prems show ?thesis
      by auto
  next
    case False
    with Cons.prems have "0 < a + g t"
      by (simp add: add_nonneg_pos)
    with Cons.IH [of "a + g t"] Cons.prems False show ?thesis
      by auto
  qed
qed

lemma term_frequency_pos_iff: "0 < term_frequency t content \<longleftrightarrow> t \<in> set (tokenize content)"
  by (simp add: term_frequency_def count_list_0_iff zero_less_iff_neq_zero)

lemma spec_score_exact_pos:
  assumes k1: "0 \<le> k1" and b: "0 \<le> b" "b \<le> 1"
    and "contains_query_term queryTerms content"
  shows "0 < spec_score exact k1 b contents content queryTerms"
proof -
  from assms(4) obtain t where t: "t \<in> set queryTerms" "t \<in> set (tokenize content)"
    by (auto simp: contains_query_term_def list_ex_iff)
  define avg where
    "avg = real (sum_list (map (\<lambda>c. length (tokenize c)) contents)) / real (length contents)"
  define g where
    "g = (\<lambda>t. spec_idf exact (length contents) (document_frequency t contents)
              * spec_tfNorm exact k1 b (real (term_frequency t content))
                  (real (length (tokenize content))) avg)"
  have avg: "0 \<le> avg"
    by (simp add: avg_def)
  have pos: "0 < g u" if "term_frequency u content \<noteq> 0" for u
  proof -
    from that have "0 < real (term_frequency u content)"
      by simp
    then show ?thesis
      unfolding g_def
      by (intro mult_pos_pos spec_idf_exact_pos spec_tfNorm_exact_pos avg k1 b
          document_frequency_le) simp_all
  qed
  have "term_frequency t content \<noteq> 0"
    using t(2) term_frequency_pos_iff [of t content] by simp
  with t(1) have ex: "\<exists>t \<in> set queryTerms. \<not> term_frequency t content = 0"
    by blast
  have "0 < foldl (\<lambda>sum t. if term_frequency t content = 0 then sum else sum + g t) 0 queryTerms"
    using foldl_skip_pos [of queryTerms "\<lambda>t. term_frequency t content = 0" g 0] pos ex
    by blast
  then show ?thesis
    unfolding spec_score_def Let_def g_def avg_def exact_fields .
qed


lemma default_parameters:
  "0 \<le> cfg_k1 DEFAULT_BM25_CONFIG" "0 \<le> cfg_b DEFAULT_BM25_CONFIG" "cfg_b DEFAULT_BM25_CONFIG \<le> 1"
  by (simp_all add: DEFAULT_BM25_CONFIG_def)

lemma search_negative:
  assumes "limit < 0"
  shows "search A idx query limit
       = take (length (search A idx query (int (length (documents idx)))) - nat (- limit))
           (search A idx query (int (length (documents idx))))"
proof (cases "tokenize query = []")
  case True
  then show ?thesis
    by (simp add: search_def)
next
  case False
  define ranking where
    "ranking = sort_by_score_desc A snd (scored_documents A idx (tokenize query))"
  have "length ranking \<le> length (documents idx)"
    by (simp add: ranking_def scored_documents_def)
  then have "slice0 ranking (int (length (documents idx))) = ranking"
    by (simp add: slice0_all)
  with False have full: "search A idx query (int (length (documents idx))) = ranking"
    by (simp add: search_def Let_def ranking_def)
  from False have "search A idx query limit = slice0 ranking limit"
    by (simp add: search_def Let_def ranking_def)
  with assms show ?thesis
    by (simp add: full slice0_negative)
qed

lemma mmr_loop_stop:
  "\<not> int (length selected) < limit \<Longrightarrow> mmr_loop A lambda limit selected remaining = selected"
  by (subst mmr_loop.simps) simp

lemma mmrRerank_negative:
  assumes "limit < 0"
  shows "mmrRerank A results limit lambda = (if 2 \<le> length results then [hd results] else [])"
proof (cases results)
  case Nil
  then show ?thesis
    by (simp add: mmrRerank_def slice0_def)
next
  case (Cons first remaining)
  show ?thesis
  proof (cases remaining)
    case Nil
    with Cons assms show ?thesis
      by (simp add: mmrRerank_def slice0_def)
  next
    case (Cons second rest)
    with \<open>results = first # remaining\<close> assms show ?thesis
      by (simp add: mmrRerank_def mmr_loop_stop)
  qed
qed

lemma MemorySystem_search_negative:
  assumes "limit < 0"
  shows "MemorySystem_search A ms now query limit
       = (if 2 \<le> length (search A (bm25Index ms) query (limit * 2))
          then [hd (sort_by_score_desc A sr_score
                      (map (decay A ms now) (search A (bm25Index ms) query (limit * 2))))]
          else [])"
proof -
  define candidates where "candidates = search A (bm25Index ms) query (limit * 2)"
  define sortedResults where
    "sortedResults = sort_by_score_desc A sr_score (map (decay A ms now) candidates)"
  have len: "length sortedResults = length candidates"
    by (simp add: sortedResults_def)
  show ?thesis
  proof (cases "candidates = []")
    case True
    then show ?thesis
      by (simp add: MemorySystem_search_def Let_def candidates_def)
  next
    case False
    then have "MemorySystem_search A ms now query limit
        = mmrRerank A sortedResults limit (fl A (7 / 10))"
      by (simp add: MemorySystem_search_def Let_def candidates_def sortedResults_def)
    then show ?thesis
      by (simp add: mmrRerank_negative [OF assms] len candidates_def [symmetric]
          sortedResults_def [symmetric])
  qed
qed

text \<open>The score depends on the document through its term frequencies and its length
  alone.\<close>

lemma spec_score_same:
  assumes "\<And>t. t \<in> set queryTerms \<Longrightarrow> term_frequency t content = term_frequency t content'"
    and "length (tokenize content) = length (tokenize content')"
  shows "spec_score A k1 b contents content queryTerms
       = spec_score A k1 b contents content' queryTerms"
  unfolding spec_score_def Let_def assms(2)
  by (rule foldl_same) (simp add: assms(1))

text \<open>Four notes of four tokens each, all with the query term once.\<close>

lemma four_notes_documents:
  "map (\<lambda>d. (doc_id d, doc_path d, doc_content d))
     (map snd (documents (index_after DEFAULT_BM25_CONFIG four_notes)))
   = [(''a'', ''memory/a.md'', ''TypeScript is a typed language''),
      (''b'', ''memory/b.md'', ''Python is a dynamic language''),
      (''c'', ''memory/c.md'', ''Rust is a systems language''),
      (''d'', ''memory/d.md'', ''Go is a small language'')]"
  by code_simp

lemma four_notes_timestamps:
  "map doc_timestamp (map snd (documents (index_after DEFAULT_BM25_CONFIG four_notes)))
   = [1000, 2000, 3000, 4000]"
  by (simp add: four_notes_def index_after_def new_BM25Index_def addDocument_def Let_def
      updateAvgDocLength_def)

lemma four_notes_terms:
  "tokenize ''language'' = [''language'']"
  "map (\<lambda>c. (term_frequency ''language'' c, length (tokenize c)))
     [''TypeScript is a typed language'', ''Python is a dynamic language'',
      ''Rust is a systems language'', ''Go is a small language'']
   = [(1, 4), (1, 4), (1, 4), (1, 4)]"
  by code_simp+

lemma four_notes_query: "contains_query_term [''language''] ''TypeScript is a typed language''"
  by code_simp

text \<open>In exact arithmetic the four scores are one number above 0, so the ranking of the
  four notes is their insertion order.\<close>

lemma four_notes_ranking:
  obtains s d1 d2 d3 d4 where "0 < s"
    and "search exact (index_after DEFAULT_BM25_CONFIG four_notes) ''language''
           (int (length (documents (index_after DEFAULT_BM25_CONFIG four_notes))))
         = [(d1, s), (d2, s), (d3, s), (d4, s)]"
    and "map doc_id [d1, d2, d3, d4] = [''a'', ''b'', ''c'', ''d'']"
    and "map doc_path [d1, d2, d3, d4]
           = [''memory/a.md'', ''memory/b.md'', ''memory/c.md'', ''memory/d.md'']"
    and "map doc_timestamp [d1, d2, d3, d4] = [1000, 2000, 3000, 4000]"
proof -
  define idx where "idx = index_after DEFAULT_BM25_CONFIG four_notes"
  define docs where "docs = map snd (documents idx)"
  define contents where "contents = map doc_content docs"
  define s where "s = spec_score exact (cfg_k1 DEFAULT_BM25_CONFIG) (cfg_b DEFAULT_BM25_CONFIG)
                        contents ''TypeScript is a typed language'' [''language'']"
  have inv: "index_inv idx" and wf: "index_wf idx" and cfg: "config idx = DEFAULT_BM25_CONFIG"
    by (simp_all add: idx_def index_inv_index_after index_wf_index_after config_index_after)
  have fields: "map (\<lambda>d. (doc_id d, doc_path d, doc_content d)) docs
     = [(''a'', ''memory/a.md'', ''TypeScript is a typed language''),
        (''b'', ''memory/b.md'', ''Python is a dynamic language''),
        (''c'', ''memory/c.md'', ''Rust is a systems language''),
        (''d'', ''memory/d.md'', ''Go is a small language'')]"
    unfolding docs_def idx_def by (rule four_notes_documents)
  then obtain d1 d2 d3 d4 where docs: "docs = [d1, d2, d3, d4]"
    and ids: "map doc_id [d1, d2, d3, d4] = [''a'', ''b'', ''c'', ''d'']"
    and paths: "map doc_path [d1, d2, d3, d4]
         = [''memory/a.md'', ''memory/b.md'', ''memory/c.md'', ''memory/d.md'']"
    and texts: "map doc_content [d1, d2, d3, d4]
         = [''TypeScript is a typed language'', ''Python is a dynamic language'',
            ''Rust is a systems language'', ''Go is a small language'']"
    by (auto simp: map_eq_Cons_conv)
  have stamps: "map doc_timestamp [d1, d2, d3, d4] = [1000, 2000, 3000, 4000]"
    using four_notes_timestamps by (simp add: docs_def [symmetric] idx_def [symmetric] docs)
  have same: "spec_score exact k1 b contents (doc_content d) [''language''] 
            = spec_score exact k1 b contents ''TypeScript is a typed language'' [''language'']"
    if "d \<in> set docs" for d k1 b
  proof (rule spec_score_same)
    from that texts four_notes_terms(2)
    show "length (tokenize (doc_content d)) = length (tokenize ''TypeScript is a typed language'')"
      by (auto simp: docs)
    fix t assume "t \<in> set [''language'']"
    with that texts four_notes_terms(2)
    show "term_frequency t (doc_content d) = term_frequency t ''TypeScript is a typed language''"
      by (auto simp: docs)
  qed
  have score: "score exact idx d [''language''] = s" if "d \<in> set docs" for d
    using score_eq_spec [OF inv wf, of d exact "[''language'']"] that same [OF that]
    by (simp add: docs_def [symmetric] contents_def [symmetric] cfg s_def)
  have pos: "0 < s"
    unfolding s_def by (intro spec_score_exact_pos default_parameters four_notes_query)
  have "map (\<lambda>doc. (doc, score exact idx doc [''language''])) docs = map (\<lambda>d. (d, s)) docs"
    by (intro map_cong) (simp_all add: score)
  then have scored: "scored_documents exact idx [''language''] = map (\<lambda>d. (d, s)) docs"
    using pos by (simp add: scored_documents_def docs_def [symmetric])
  have "sort_by_score_desc exact snd (map (\<lambda>d. (d, s)) docs) = map (\<lambda>d. (d, s)) docs"
    by (rule sort_by_score_desc_ties) auto
  moreover have "length (documents idx) = 4"
    using docs by (simp add: docs_def [symmetric] flip: length_map [of snd "documents idx"])
  ultimately have "search exact idx ''language'' (int (length (documents idx)))
      = [(d1, s), (d2, s), (d3, s), (d4, s)]"
    by (simp add: search_def Let_def four_notes_terms(1) scored slice0_def docs)
  then have "search exact (index_after DEFAULT_BM25_CONFIG four_notes) ''language''
           (int (length (documents (index_after DEFAULT_BM25_CONFIG four_notes))))
         = [(d1, s), (d2, s), (d3, s), (d4, s)]"
    by (simp only: idx_def)
  with pos show thesis
    using ids paths stamps by (rule that)
qed

lemma four_notes_size:
  "length (documents (index_after DEFAULT_BM25_CONFIG four_notes)) = 4"
  by code_simp

lemma decay_exact:
  "decay exact ms now (d, s)
   = \<lparr>sr_path = doc_path d, sr_content = doc_content d,
      sr_score = s * (1 / 2) powr ((now - doc_timestamp d)
                   / (temporalDecayHalfLife (ms_config ms) * 24 * 60 * 60 * 1000)),
      sr_timestamp = doc_timestamp d\<rparr>"
  by (simp add: decay_def halfLifeMs_def Let_def)

lemma decay_exact_less:
  assumes "0 < s" and "0 < h" and "x < y"
  shows "s * (1 / 2) powr (y / h) < s * (1 / 2 :: real) powr (x / h)"
proof -
  from assms have "x / h < y / h"
    by (simp add: divide_strict_right_mono)
  then have "(1 / 2 :: real) powr (y / h) < (1 / 2) powr (x / h)"
    by (intro powr_less_mono') simp_all
  with assms(1) show ?thesis
    by simp
qed




text \<open>
  Claim C8, as the code has it. A search call with a negative limit is not rejected:
  neither \<open>search\<close> checks its parameters. \<open>BM25Index.search\<close> tokenizes, scores and sorts
  as for any limit and returns the ranking without its last \<open>|limit|\<close> entries;
  \<open>MemorySystem.search\<close> takes the candidates that \<open>BM25Index.search\<close> returns for twice the
  limit, decays and sorts them, and returns the first of them when there are at least two
  candidates, and nothing otherwise.
\<close>

theorem search_accepts_negative_limit:
  assumes "limit < 0"
  shows "search A idx query limit
           = take (length (search A idx query (int (length (documents idx)))) - nat (- limit))
               (search A idx query (int (length (documents idx))))
       \<and> MemorySystem_search A ms now query limit
           = (if 2 \<le> length (search A (bm25Index ms) query (limit * 2))
              then [hd (sort_by_score_desc A sr_score
                          (map (decay A ms now) (search A (bm25Index ms) query (limit * 2))))]
              else [])"
  by (intro conjI search_negative MemorySystem_search_negative assms)

text \<open>Against C8 as the specification words it: on four notes that all have the query
  term, \<open>BM25Index.search\<close> with limit \<open>-2\<close> returns the notes a and b, and
  \<open>MemorySystem.search\<close> with limit \<open>-1\<close>, at time 5000, returns b, the more recent of the
  two.\<close>

theorem negative_limit_not_rejected:
  "map (doc_id \<circ> fst)
     (search exact (index_after DEFAULT_BM25_CONFIG four_notes) ''language'' (- 2))
     = [''a'', ''b'']
   \<and> map sr_path (MemorySystem_search exact
        \<lparr>ms_config = DEFAULT_MEMORY_CONFIG,
         bm25Index = index_after DEFAULT_BM25_CONFIG four_notes, note_files = []\<rparr>
        5000 ''language'' (- 1)) = [''memory/b.md'']"
proof -
  define ms where "ms = \<lparr>ms_config = DEFAULT_MEMORY_CONFIG,
         bm25Index = index_after DEFAULT_BM25_CONFIG four_notes, note_files = []\<rparr>"
  obtain s d1 d2 d3 d4
    where pos: "0 < s"
      and full: "search exact (index_after DEFAULT_BM25_CONFIG four_notes) ''language''
         (int (length (documents (index_after DEFAULT_BM25_CONFIG four_notes))))
       = [(d1, s), (d2, s), (d3, s), (d4, s)]"
      and ids: "map doc_id [d1, d2, d3, d4] = [''a'', ''b'', ''c'', ''d'']"
      and paths: "map doc_path [d1, d2, d3, d4]
         = [''memory/a.md'', ''memory/b.md'', ''memory/c.md'', ''memory/d.md'']"
      and stamps: "map doc_timestamp [d1, d2, d3, d4] = [1000, 2000, 3000, 4000]"
    by (rule four_notes_ranking)
  have two: "search exact (index_after DEFAULT_BM25_CONFIG four_notes) ''language'' (- 2)
      = [(d1, s), (d2, s)]"
    by (subst search_negative) (simp_all add: full)
  have "s * (1 / 2) powr (4000 / (7 * 24 * 60 * 60 * 1000))
      < s * (1 / 2 :: real) powr (3000 / (7 * 24 * 60 * 60 * 1000))"
    by (intro decay_exact_less pos) simp_all
  then have "sr_score (decay exact ms 5000 (d1, s)) < sr_score (decay exact ms 5000 (d2, s))"
    using stamps by (simp add: decay_exact ms_def DEFAULT_MEMORY_CONFIG_def)
  then have "sort_by_score_desc exact sr_score [decay exact ms 5000 (d1, s), decay exact ms 5000 (d2, s)]
      = [decay exact ms 5000 (d2, s), decay exact ms 5000 (d1, s)]"
    by (simp add: sort_by_score_desc_def)
  then have "MemorySystem_search exact ms 5000 ''language'' (- 1) = [decay exact ms 5000 (d2, s)]"
    by (subst MemorySystem_search_negative) (simp_all add: ms_def two)
  then have "map sr_path (MemorySystem_search exact ms 5000 ''language'' (- 1)) = [''memory/b.md'']"
    using paths by (simp add: decay_exact)
  with two ids show ?thesis
    unfolding ms_def by simp
qed

theorem search_accepts_negative_limit_witness:
  "(- 3 :: int) < 0
   \<and> map (doc_id \<circ> fst)
       (search exact (index_after DEFAULT_BM25_CONFIG four_notes) ''language'' (- 3)) = [''a'']"
proof -
  obtain s d1 d2 d3 d4
    where full: "search exact (index_after DEFAULT_BM25_CONFIG four_notes) ''language''
         (int (length (documents (index_after DEFAULT_BM25_CONFIG four_notes))))
       = [(d1, s), (d2, s), (d3, s), (d4, s)]"
      and ids: "map doc_id [d1, d2, d3, d4] = [''a'', ''b'', ''c'', ''d'']"
    by (rule four_notes_ranking)
  have negative: "(- 3 :: int) < 0"
    by simp
  from search_accepts_negative_limit [OF negative, of exact
      "index_after DEFAULT_BM25_CONFIG four_notes" "''language''"]
  have "search exact (index_after DEFAULT_BM25_CONFIG four_notes) ''language'' (- 3) = [(d1, s)]"
    by (simp add: full)
  with ids show ?thesis
    by simp
qed

section \<open>Verification: compaction\<close>

lemma foldl_tokens:
  "foldl (\<lambda>totalTokens entry. totalTokens + estimateTokens (entry_content entry)) a h
     = a + sum_list (map (\<lambda>e. estimateTokens (entry_content e)) h)"
  by (induction h arbitrary: a) simp_all

lemma total_tokens_sum:
  "total_tokens h = sum_list (map (\<lambda>e. estimateTokens (entry_content e)) h)"
  by (simp add: total_tokens_def foldl_tokens)

lemma total_tokens_simps [simp]:
  "total_tokens [] = 0"
  "total_tokens (e # h) = estimateTokens (entry_content e) + total_tokens h"
  "total_tokens (a @ b) = total_tokens a + total_tokens b"
  "total_tokens (rev h) = total_tokens h"
  by (simp_all add: total_tokens_sum rev_map [symmetric])

text \<open>The backward loop keeps the longest run of newest entries whose running total
  stays within the limit.\<close>

lemma keep_recent_spec:
  "\<exists>k \<le> length xs.
     keep_recent L xs t acc = rev (take k xs) @ acc
     \<and> (k = 0 \<or> int (t + total_tokens (take k xs)) \<le> L)
     \<and> (k < length xs \<longrightarrow> L < int (t + total_tokens (take (Suc k) xs)))"
proof (induction xs arbitrary: t acc)
  case Nil
  then show ?case by simp
next
  case (Cons e xs)
  show ?case
  proof (cases "int (t + estimateTokens (entry_content e)) \<le> L")
    case False
    then have "keep_recent L (e # xs) t acc = rev (take 0 (e # xs)) @ acc
        \<and> (0 < length (e # xs) \<longrightarrow> L < int (t + total_tokens (take (Suc 0) (e # xs))))"
      by simp
    then show ?thesis
      by (intro exI [of _ 0]) simp
  next
    case True
    from Cons.IH [of "t + estimateTokens (entry_content e)" "e # acc"]
    obtain k where k: "k \<le> length xs"
      "keep_recent L xs (t + estimateTokens (entry_content e)) (e # acc) = rev (take k xs) @ e # acc"
      "k = 0 \<or> int (t + estimateTokens (entry_content e) + total_tokens (take k xs)) \<le> L"
      "k < length xs \<longrightarrow> L < int (t + estimateTokens (entry_content e) + total_tokens (take (Suc k) xs))"
      by blast
    from True k have "Suc k \<le> length (e # xs)
        \<and> keep_recent L (e # xs) t acc = rev (take (Suc k) (e # xs)) @ acc
        \<and> (Suc k = 0 \<or> int (t + total_tokens (take (Suc k) (e # xs))) \<le> L)
        \<and> (Suc k < length (e # xs) \<longrightarrow> L < int (t + total_tokens (take (Suc (Suc k)) (e # xs))))"
      by (auto simp: add.assoc)
    then show ?thesis
      by blast
  qed
qed

text \<open>What \<open>compact\<close> keeps verbatim is a final segment of the history.\<close>

lemma recent_messages:
  obtains older recent where "history = older @ recent"
    and "keep_recent L (rev history) 0 [] = recent"
    and "take (length history - length recent) history = older"
    and "recent = [] \<or> int (total_tokens recent) \<le> L"
    and "older \<noteq> [] \<longrightarrow> L < int (total_tokens (last older # recent))"
proof -
  from keep_recent_spec [of "rev history" L 0 "[]"]
  obtain k where k: "k \<le> length history"
    "keep_recent L (rev history) 0 [] = rev (take k (rev history))"
    "k = 0 \<or> int (total_tokens (take k (rev history))) \<le> L"
    "k < length history \<longrightarrow> L < int (total_tokens (take (Suc k) (rev history)))"
    by auto
  define recent where "recent = drop (length history - k) history"
  define older where "older = take (length history - k) history"
  have rec: "rev (take k (rev history)) = recent"
    by (simp add: recent_def take_rev)
  have len: "length recent = k"
    using k(1) by (simp add: recent_def)
  have 1: "history = older @ recent"
    by (simp add: older_def recent_def)
  have 2: "keep_recent L (rev history) 0 [] = recent"
    by (simp add: k(2) rec)
  have 3: "take (length history - length recent) history = older"
    by (simp add: len older_def)
  have "total_tokens (take k (rev history)) = total_tokens recent"
    using total_tokens_simps(4) [of "take k (rev history)"] by (simp add: rec)
  with k(3) len have 4: "recent = [] \<or> int (total_tokens recent) \<le> L"
    by auto
  have 5: "older \<noteq> [] \<longrightarrow> L < int (total_tokens (last older # recent))"
  proof
    assume ne: "older \<noteq> []"
    then have lt: "k < length history"
      using k(1) by (auto simp: older_def)
    have "rev (take (Suc k) (rev history)) = drop (length history - Suc k) history"
      by (simp add: take_rev)
    also have "\<dots> = history ! (length history - Suc k) # drop (length history - k) history"
      using lt by (metis Cons_nth_drop_Suc Suc_diff_Suc diff_less zero_less_Suc
          length_greater_0_conv less_nat_zero_code list.size(3) not_gr_zero)
    also have "history ! (length history - Suc k) = last older"
      using lt ne by (cases "k = 0") (auto simp: older_def last_conv_nth min_def)
    finally have "rev (take (Suc k) (rev history)) = last older # recent"
      by (simp add: recent_def)
    then have "total_tokens (take (Suc k) (rev history)) = total_tokens (last older # recent)"
      using total_tokens_simps(4) [of "take (Suc k) (rev history)"] by simp
    with k(4) lt show "L < int (total_tokens (last older # recent))"
      by simp
  qed
  from 1 2 3 4 5 show thesis
    by (rule that)
qed







text \<open>Without a sentence that looks like a fact, nothing is extracted.\<close>

lemma scan_sentences_none:
  "\<forall>s \<in> set ss. \<not> fact_like (trim s) \<Longrightarrow> scan_sentences ss facts = facts"
  by (induction ss arbitrary: facts) simp_all

lemma scan_entries_none:
  assumes "\<forall>e \<in> set es. entry_role e \<noteq> Tool \<longrightarrow>
             (\<forall>s \<in> set (sentences (entry_content e)). \<not> fact_like (trim s))"
  shows "scan_entries es [] = []"
  using assms by (induction es) (simp_all add: scan_sentences_none)

declare bit_length.simps [simp del]

lemma bit_length_bounds:
  "0 < n \<Longrightarrow> 2 ^ (bit_length n - 1) \<le> n \<and> n < 2 ^ bit_length n"
proof (induction n rule: bit_length.induct)
  case (1 n)
  show ?case
  proof (cases "n = 1")
    case True
    have "bit_length 1 = 1"
      by (simp add: bit_length.simps [of 1] bit_length.simps [of 0])
    with True show ?thesis
      by simp
  next
    case False
    with "1.prems" have half: "0 < n div 2"
      by simp
    with "1.IH" "1.prems" have IH: "2 ^ (bit_length (n div 2) - 1) \<le> n div 2"
      "n div 2 < 2 ^ bit_length (n div 2)"
      by simp_all
    have pos: "0 < bit_length (n div 2)"
      using half by (subst bit_length.simps) simp
    have bl: "bit_length n = Suc (bit_length (n div 2))"
      using "1.prems" by (subst bit_length.simps) simp
    from pos have "(2 :: int) ^ (bit_length n - 1) = 2 * 2 ^ (bit_length (n div 2) - 1)"
      by (cases "bit_length (n div 2)") (simp_all add: bl)
    with IH(1) have lower: "2 ^ (bit_length n - 1) \<le> n"
      by linarith
    from IH(2) have "n < 2 * 2 ^ bit_length (n div 2)"
      by linarith
    with lower show ?thesis
      by (simp add: bl)
  qed
qed

lemma bit_length_le:
  assumes "0 \<le> n" and "n < 2 ^ k"
  shows "bit_length n \<le> k"
proof (cases "n = 0")
  case True
  then show ?thesis
    by (simp add: bit_length.simps [of 0])
next
  case False
  with assms have "2 ^ (bit_length n - 1) \<le> n"
    using bit_length_bounds [of n] by simp
  with assms(2) have "(2 :: int) ^ (bit_length n - 1) < 2 ^ k"
    by linarith
  then have "bit_length n - 1 < k"
    by (simp add: power_strict_increasing_iff)
  then show ?thesis
    by simp
qed

text \<open>Rounding to 53 bits does not pass a multiple of the unit it rounds to.\<close>

lemma round_le_multiple:
  assumes "0 \<le> N" and "N \<le> T" and "2 ^ (bit_length N - 53) dvd T"
  shows "round_to_53_bits N \<le> T"
proof (cases "bit_length N \<le> 53")
  case True
  with assms(2) show ?thesis
    by (simp add: round_to_53_bits_def)
next
  case False
  define s where "s = bit_length N - 53"
  define q where "q = N div 2 ^ s"
  define r where "r = N mod 2 ^ s"
  from False have s: "0 < s"
    by (simp add: s_def)
  have N: "N = q * 2 ^ s + r"
    unfolding q_def r_def by (rule div_mult_mod_eq [symmetric])
  have r: "0 \<le> r" "r < 2 ^ s"
    by (simp_all add: r_def)
  from assms(3) obtain m where T: "T = 2 ^ s * m"
    unfolding s_def [symmetric] by (auto elim: dvdE)
  have low: "q * 2 ^ s \<le> T"
    using N r(1) assms(2) by linarith
  have up: "(q + 1) * 2 ^ s \<le> T" if "0 < r"
  proof -
    from that N assms(2) have "q * 2 ^ s < 2 ^ s * m"
      unfolding T by linarith
    then have "q < m"
      by (simp add: mult.commute)
    then have "q + 1 \<le> m"
      by simp
    then have "(q + 1) * 2 ^ s \<le> m * 2 ^ s"
      by (intro mult_right_mono) simp_all
    then show ?thesis
      by (simp add: T mult.commute)
  qed
  have half: "(0 :: int) < 2 ^ (s - 1)"
    by simp
  have "round_to_53_bits N
      = (if r > 2 ^ (s - 1) \<or> (r = 2 ^ (s - 1) \<and> odd q) then q + 1 else q) * 2 ^ s"
    using False by (simp add: round_to_53_bits_def Let_def s_def q_def r_def)
  also have "\<dots> \<le> T"
    using low up half by (auto simp del: zero_less_power)
  finally show ?thesis .
qed

lemma round_pos:
  assumes "0 < N"
  shows "0 < round_to_53_bits N"
proof (cases "bit_length N \<le> 53")
  case True
  with assms show ?thesis
    by (simp add: round_to_53_bits_def)
next
  case False
  define s where "s = bit_length N - 53"
  define q where "q = N div 2 ^ s"
  from bit_length_bounds [OF assms] have "2 ^ (bit_length N - 1) \<le> N"
    by simp
  moreover have "(2 :: int) ^ s \<le> 2 ^ (bit_length N - 1)"
    by (intro power_increasing) (simp_all add: s_def)
  ultimately have "2 ^ s \<le> N"
    by linarith
  then have "2 ^ s div 2 ^ s \<le> N div (2 ^ s :: int)"
    by (rule zdiv_mono1) simp
  then have "1 \<le> q"
    by (simp add: q_def)
  then have "0 < q * 2 ^ s" "0 < (q + 1) * 2 ^ s"
    by simp_all
  then show ?thesis
    using False by (simp add: round_to_53_bits_def Let_def s_def [symmetric] q_def [symmetric])
qed






text \<open>An integer above seven tenths of \<open>b\<close> is above \<open>Math.floor(b * 0.7)\<close>.\<close>

lemma floor_times_0_7_below:
  assumes b: "b \<le> 2 ^ 48" and t: "7 * b < 10 * t" "0 \<le> t"
  shows "floor_times_0_7 b < t"
proof -
  consider "b = 0" | "0 < b" | "b < 0"
    by linarith
  then show ?thesis
  proof cases
    case 1
    have "round_to_53_bits 0 = 0"
      by (simp add: round_to_53_bits_def bit_length.simps [of 0])
    with 1 t show ?thesis
      by (simp add: floor_times_0_7_def)
  next
    case 2
    define N where "N = b * 3152519739159347"
    define s where "s = bit_length N - 53"
    have "N \<le> 2 ^ 48 * 3152519739159347"
      unfolding N_def using b by (intro mult_right_mono) simp_all
    then have "N < 2 ^ 100"
      by simp
    moreover have N0: "0 \<le> N"
      using 2 by (simp add: N_def)
    ultimately have "bit_length N \<le> 100"
      by (intro bit_length_le)
    then have s: "s \<le> 47"
      by (simp add: s_def)
    then have "(2 :: int) ^ s \<le> 2 ^ 47"
      by (intro power_increasing) simp_all
    then have unit: "(2 :: int) ^ s \<le> 140737488355328"
      by simp
    from t(1) have "7 * b + 1 \<le> 10 * t"
      by simp
    then have "10 * N + 2 * b + 4503599627370496 \<le> 10 * (t * 4503599627370496)"
      unfolding N_def by simp
    with 2 unit have le: "N \<le> t * 2 ^ 52 - 2 ^ s"
      by simp
    have "(2 :: int) ^ s dvd 2 ^ 52"
      using s by (intro le_imp_power_dvd) simp
    then have "2 ^ s dvd t * 2 ^ 52"
      by (rule dvd_mult)
    then have "2 ^ s dvd t * 2 ^ 52 - 2 ^ s"
      by (rule dvd_diff) simp
    with N0 le have "round_to_53_bits N \<le> t * 2 ^ 52 - 2 ^ s"
      unfolding s_def by (intro round_le_multiple)
    then have "round_to_53_bits N \<le> t * 4503599627370496 - 2 ^ s"
      by simp
    moreover have "(1 :: int) \<le> 2 ^ s"
      by (rule one_le_power) simp
    ultimately have less: "round_to_53_bits N < t * 4503599627370496"
      by linarith
    have "round_to_53_bits N
        = round_to_53_bits N div 4503599627370496 * 4503599627370496
          + round_to_53_bits N mod 4503599627370496"
      by simp
    moreover have "0 \<le> round_to_53_bits N mod 4503599627370496"
      by simp
    ultimately have "round_to_53_bits N div 4503599627370496 < t"
      using less by linarith
    with 2 show ?thesis
      by (simp add: floor_times_0_7_def N_def)
  next
    case 3
    then have "0 < \<bar>b\<bar> * 3152519739159347"
      by simp
    then have "0 < round_to_53_bits (\<bar>b\<bar> * 3152519739159347)"
      by (rule round_pos)
    then have "- round_to_53_bits (\<bar>b\<bar> * 3152519739159347) div 2 ^ 52 < 0"
      by (simp add: neg_imp_zdiv_neg_iff)
    with 3 t(2) show ?thesis
      by (simp add: floor_times_0_7_def)
  qed
qed


lemma compact_over:
  assumes limit: "limit = (case maxTokens of None \<Rightarrow> maxContextTokens (ms_config ms) | Some n \<Rightarrow> n)"
    and over: "limit < int (total_tokens history)"
  obtains older recent where "history = older @ recent"
    and "recent = [] \<or> int (total_tokens recent) \<le> floor_times_0_7 limit"
    and "older \<noteq> [] \<longrightarrow> floor_times_0_7 limit < int (total_tokens (last older # recent))"
    and "compactedHistory (fst (compact ms env history maxTokens))
           = (if extractFacts older = [] then []
              else [summary_entry env older (extractFacts older)]) @ recent"
    and "flushedFacts (fst (compact ms env history maxTokens)) = extractFacts older"
    and "snd (compact ms env history maxTokens)
           = (if extractFacts older = [] then ms
              else flushFactsToDisk ms env (extractFacts older))"
proof -
  obtain older recent where parts: "history = older @ recent"
    "keep_recent (floor_times_0_7 limit) (rev history) 0 [] = recent"
    "take (length history - length recent) history = older"
    "recent = [] \<or> int (total_tokens recent) \<le> floor_times_0_7 limit"
    "older \<noteq> [] \<longrightarrow> floor_times_0_7 limit < int (total_tokens (last older # recent))"
    by (rule recent_messages)
  have none: "extractFacts [] = []"
    by (simp add: extractFacts_def)
  have not_within: "\<not> int (total_tokens history) \<le> limit"
    using over by simp
  have kept: "compactedHistory (fst (compact ms env history maxTokens))
           = (if extractFacts older = [] then []
              else [summary_entry env older (extractFacts older)]) @ recent"
    unfolding compact_def Let_def limit [symmetric] parts(2) parts(3)
    using not_within none by (cases "older = []") simp_all
  have facts: "flushedFacts (fst (compact ms env history maxTokens)) = extractFacts older"
    unfolding compact_def Let_def limit [symmetric] parts(2) parts(3)
    using not_within none by (cases "older = []") simp_all
  have state: "snd (compact ms env history maxTokens)
           = (if extractFacts older = [] then ms
              else flushFactsToDisk ms env (extractFacts older))"
    unfolding compact_def Let_def limit [symmetric] parts(2) parts(3)
    using not_within none by (cases "older = []") simp_all
  from parts(1,4,5) kept facts state show thesis
    by (rule that)
qed

lemma entry_tokens_le_total:
  "e \<in> set h \<Longrightarrow> estimateTokens (entry_content e) \<le> total_tokens h"
  by (induction h) auto









lemma compact_discards:
  assumes limit: "limit = (case maxTokens of None \<Rightarrow> maxContextTokens (ms_config ms) | Some n \<Rightarrow> n)"
    and bound: "limit \<le> 2 ^ 48"
    and over: "limit < int (total_tokens history)"
    and newest: "history \<noteq> []"
      "7 * limit < 10 * int (estimateTokens (entry_content (last history)))"
    and no_facts: "\<forall>e \<in> set history. entry_role e \<noteq> Tool \<longrightarrow>
        (\<forall>s \<in> set (sentences (entry_content e)). \<not> fact_like (trim s))"
  shows "compact ms env history maxTokens = (\<lparr>compactedHistory = [], flushedFacts = []\<rparr>, ms)"
proof -
  from limit over obtain older recent where parts: "history = older @ recent"
    "recent = [] \<or> int (total_tokens recent) \<le> floor_times_0_7 limit"
    "compactedHistory (fst (compact ms env history maxTokens))
           = (if extractFacts older = [] then []
              else [summary_entry env older (extractFacts older)]) @ recent"
    "flushedFacts (fst (compact ms env history maxTokens)) = extractFacts older"
    "snd (compact ms env history maxTokens)
           = (if extractFacts older = [] then ms
              else flushFactsToDisk ms env (extractFacts older))"
    by (rule compact_over)
  have below: "floor_times_0_7 limit < int (estimateTokens (entry_content (last history)))"
    using bound newest(2) by (intro floor_times_0_7_below) simp_all
  have recent: "recent = []"
  proof (rule ccontr)
    assume ne: "recent \<noteq> []"
    then have "last history = last recent"
      by (simp add: parts(1))
    with ne have "last history \<in> set recent"
      by simp
    then have "estimateTokens (entry_content (last history)) \<le> total_tokens recent"
      by (rule entry_tokens_le_total)
    with parts(2) ne below show False
      by simp
  qed
  then have older: "older = history"
    by (simp add: parts(1))
  have facts: "extractFacts history = []"
    unfolding extractFacts_def by (rule scan_entries_none [OF no_facts])
  have "fst (compact ms env history maxTokens) = \<lparr>compactedHistory = [], flushedFacts = []\<rparr>"
    using parts(3,4) by (simp add: older recent facts)
  moreover have "snd (compact ms env history maxTokens) = ms"
    using parts(5) by (simp add: older facts)
  ultimately show ?thesis
    by (simp add: prod_eq_iff)
qed

lemma unrelated_sentences:
  "total_tokens unrelated_history = 7"
  "estimateTokens (entry_content (last unrelated_history)) = 7"
  "list_all (\<lambda>e. list_all (\<lambda>s. \<not> fact_like (trim s)) (sentences (entry_content e)))
     unrelated_history"
  "map (\<lambda>e. sentences (entry_content e)) unrelated_history = [[''completely unrelated words'']]"
  "unrelated_history \<noteq> []"
  by code_simp+

lemma unrelated_discarded:
  "compact ms env unrelated_history (Some 5) = (\<lparr>compactedHistory = [], flushedFacts = []\<rparr>, ms)"
proof (rule compact_discards)
  show "(5 :: int) = (case Some 5 of None \<Rightarrow> maxContextTokens (ms_config ms) | Some n \<Rightarrow> n)"
    by simp
  show "(5 :: int) \<le> 2 ^ 48"
    by simp
  show "5 < int (total_tokens unrelated_history)"
    by (simp add: unrelated_sentences)
  show "unrelated_history \<noteq> []"
    by (rule unrelated_sentences)
  show "7 * 5 < 10 * int (estimateTokens (entry_content (last unrelated_history)))"
    by (simp add: unrelated_sentences)
  show "\<forall>e \<in> set unrelated_history. entry_role e \<noteq> Tool \<longrightarrow>
        (\<forall>s \<in> set (sentences (entry_content e)). \<not> fact_like (trim s))"
    using unrelated_sentences(3) by (simp add: list_all_iff)
qed

text \<open>
  Claim C9 (compaction can discard everything). When the total of the history exceeds the
  budget, the newest entry alone has more tokens than seven tenths of the budget, and no
  sentence that \<open>extractFacts\<close> looks at (in an entry that is not a tool entry, longer than
  ten characters when trimmed) matches a fact cue, then \<open>compact\<close> returns an empty
  retained history and an empty fact list and leaves the state (index and note files) as
  it was. There is a history that is not empty and a positive budget for which this
  happens. Budgets up to \<open>2^48\<close>.
\<close>

theorem compaction_discards_everything:
  assumes limit: "limit = (case maxTokens of None \<Rightarrow> maxContextTokens (ms_config ms) | Some n \<Rightarrow> n)"
    and bound: "limit \<le> 2 ^ 48"
    and over: "limit < int (total_tokens history)"
    and newest: "history \<noteq> []"
      "7 * limit < 10 * int (estimateTokens (entry_content (last history)))"
    and no_facts: "\<forall>e \<in> set history. entry_role e \<noteq> Tool \<longrightarrow>
        (\<forall>s \<in> set (sentences (entry_content e)). \<not> fact_like (trim s))"
  shows "compact ms env history maxTokens = (\<lparr>compactedHistory = [], flushedFacts = []\<rparr>, ms)
       \<and> (\<exists>h b. h \<noteq> [] \<and> 0 < b
             \<and> (\<forall>ms' env'. compact ms' env' h (Some b)
                   = (\<lparr>compactedHistory = [], flushedFacts = []\<rparr>, ms')))"
proof -
  have "compact ms env history maxTokens = (\<lparr>compactedHistory = [], flushedFacts = []\<rparr>, ms)"
    by (rule compact_discards [OF assms])
  moreover have "unrelated_history \<noteq> [] \<and> (0 :: int) < 5
      \<and> (\<forall>ms' env'. compact ms' env' unrelated_history (Some 5)
            = (\<lparr>compactedHistory = [], flushedFacts = []\<rparr>, ms'))"
    by (simp add: unrelated_sentences(5) unrelated_discarded)
  ultimately show ?thesis
    by blast
qed

theorem compaction_discards_everything_witness:
  "(5 :: int) \<le> 2 ^ 48 \<and> 5 < int (total_tokens unrelated_history)
   \<and> unrelated_history \<noteq> []
   \<and> 7 * 5 < 10 * int (estimateTokens (entry_content (last unrelated_history)))
   \<and> map (\<lambda>e. sentences (entry_content e)) unrelated_history = [[''completely unrelated words'']]
   \<and> \<not> fact_like (trim ''completely unrelated words'')
   \<and> compact (new_MemorySystem DEFAULT_MEMORY_CONFIG) example_env unrelated_history (Some 5)
       = (\<lparr>compactedHistory = [], flushedFacts = []\<rparr>, new_MemorySystem DEFAULT_MEMORY_CONFIG)"
proof -
  have limit: "(5 :: int) = (case Some 5 of
      None \<Rightarrow> maxContextTokens (ms_config (new_MemorySystem DEFAULT_MEMORY_CONFIG)) | Some n \<Rightarrow> n)"
    by simp
  have bound: "(5 :: int) \<le> 2 ^ 48"
    by simp
  have over: "5 < int (total_tokens unrelated_history)"
    by (simp add: unrelated_sentences)
  have newest: "7 * 5 < 10 * int (estimateTokens (entry_content (last unrelated_history)))"
    by (simp add: unrelated_sentences)
  have no_facts: "\<forall>e \<in> set unrelated_history. entry_role e \<noteq> Tool \<longrightarrow>
        (\<forall>s \<in> set (sentences (entry_content e)). \<not> fact_like (trim s))"
    using unrelated_sentences(3) by (simp add: list_all_iff)
  have cue: "\<not> fact_like (trim ''completely unrelated words'')"
    by code_simp
  from compaction_discards_everything [OF limit bound over unrelated_sentences(5) newest no_facts,
      of example_env]
  have "compact (new_MemorySystem DEFAULT_MEMORY_CONFIG) example_env unrelated_history (Some 5)
       = (\<lparr>compactedHistory = [], flushedFacts = []\<rparr>, new_MemorySystem DEFAULT_MEMORY_CONFIG)"
    by blast
  with bound over newest cue unrelated_sentences(4,5) show ?thesis
    by simp
qed

end
